theory Spec2Isabelle
  imports Complex_Main "HOL-Library.Word"
begin

unbundle bit_operations_syntax

section \<open>The program\<close>

text \<open>
  The embedding follows the Go sources: \<^verbatim>\<open>internal/era5/record.go\<close> (the scanner),
  \<^verbatim>\<open>internal/vm/client.go\<close> in the version whose \<^verbatim>\<open>NewClient\<close> takes the metric prefix (the
  one that \<^verbatim>\<open>main\<close> calls with four arguments), and \<^verbatim>\<open>main.go\<close> (the pipeline). Mutable
  receivers are passed in and returned; calls into libraries and the outside world are
  parameters or small models of the library.
\<close>

subsection \<open>Machine types and outcomes\<close>

text \<open>
  Go's \<^verbatim>\<open>int16\<close>, \<^verbatim>\<open>int32\<close> and \<^verbatim>\<open>int64\<close> are two's complement words, read with
  \<^const>\<open>sint\<close>. A \<^verbatim>\<open>float32\<close> is carried as its IEEE-754 binary32 bit pattern: the
  scanner only copies such values, and the encoders only print them.
\<close>

type_synonym int16 = "16 word"
type_synonym int32 = "32 word"
type_synonym int64 = "64 word"
type_synonym float32 = "32 word"

text \<open>A Go \<^verbatim>\<open>error\<close> value: a message, or the format and the string arguments of a
  \<^verbatim>\<open>fmt.Errorf\<close> call, kept unformatted.\<close>

datatype error = ErrorString string | Errorf string "string list"

text \<open>Run-time panics that the modelled code can raise.\<close>

datatype panic = TypeAssertion | IndexOutOfRange | SliceBounds

text \<open>
  The outcome of a call that returns \<^verbatim>\<open>(T, error)\<close> and may panic: \<open>Panic\<close> ends
  the program, \<open>Err\<close> is the non-nil error return, \<open>Ok\<close> the value. \<open>Unmodelled\<close>
  marks a call into the standard library (\<^verbatim>\<open>fmt\<close>, \<^verbatim>\<open>regexp\<close>) with arguments outside
  the fragment of the library that is modelled below; the theorems show that the
  program's calls stay inside it.
\<close>

datatype 'a result = Panic panic | Err error | Unmodelled | Ok 'a

fun bindR :: "'a result \<Rightarrow> ('a \<Rightarrow> 'b result) \<Rightarrow> 'b result" where
  "bindR (Panic p) f = Panic p"
| "bindR (Err e) f = Err e"
| "bindR Unmodelled f = Unmodelled"
| "bindR (Ok x) f = f x"

text \<open>Indexing a slice: Go panics out of range.\<close>

definition index :: "'a list \<Rightarrow> nat \<Rightarrow> 'a result" where
  "index xs i = (if i < length xs then Ok (xs ! i) else Panic IndexOutOfRange)"

subsection \<open>Record (internal/era5/record.go)\<close>

record Record =
  Timestamp :: int64
  Latitude :: float32
  Longitude :: float32
  ZonalWind10M :: int16
  MeridionalWind10M :: int16
  Temperature2M :: int16
  Snowfall :: int16
  TotalCloudCover :: int16
  TotalPrecipitation :: int16

text \<open>The zero value of \<^verbatim>\<open>Record\<close>, as \<^verbatim>\<open>make([]Record, n)\<close> fills a slice with.\<close>

definition zeroRecord :: Record where
  "zeroRecord = \<lparr>Timestamp = 0, Latitude = 0, Longitude = 0, ZonalWind10M = 0,
     MeridionalWind10M = 0, Temperature2M = 0, Snowfall = 0, TotalCloudCover = 0,
     TotalPrecipitation = 0\<rparr>"

subsection \<open>The NetCDF collaborator\<close>

text \<open>
  The file reader is an external library. Its interface is a parameter of the model:
  a group hands out variable getters by name, and a getter returns all values of the
  variable or a slice of it, as a dynamically typed value (Go's \<^verbatim>\<open>interface{}\<close>) on
  which the scanner makes type assertions.
\<close>

datatype nc_value =
    Float32s "float32 list"
  | Int32s "int32 list"
  | Int16Cube "int16 list list list"
  | OtherValue

record VarGetter =
  Values :: "error + nc_value"
  GetSlice :: "int \<Rightarrow> int \<Rightarrow> error + nc_value"

record Group =
  GetVarGetter :: "string \<Rightarrow> error + VarGetter"

subsection \<open>Grid scanner (internal/era5/record.go)\<close>

definition unixSecs1900 :: int64 where
  "unixSecs1900 = - 2208988800"

record Scanner =
  nc :: Group
  la :: "float32 list"
  lo :: "float32 list"
  ts :: "int64 list"
  u10 :: VarGetter
  v10 :: VarGetter
  t2m :: VarGetter
  sf :: VarGetter
  tcc :: VarGetter
  tp :: VarGetter
  pos :: nat
  recs :: "Record list"
  err :: "error option"

text \<open>A call of \<^verbatim>\<open>nc.GetVarGetter\<close> followed by \<^verbatim>\<open>if err != nil { return nil, err }\<close>.\<close>

definition getVar :: "Group \<Rightarrow> string \<Rightarrow> VarGetter result" where
  "getVar g name = (case GetVarGetter g name of Inl e \<Rightarrow> Err e | Inr vg \<Rightarrow> Ok vg)"

text \<open>\<^verbatim>\<open>dimValues[T]\<close>, at its two instances. The type assertion \<^verbatim>\<open>v.([]T)\<close> panics
  on a value of another dynamic type.\<close>

definition dimValues_float32 :: "Group \<Rightarrow> string \<Rightarrow> float32 list result" where
  "dimValues_float32 g dimName =
     bindR (getVar g dimName) (\<lambda>dim.
       case Values dim of
         Inl e \<Rightarrow> Err e
       | Inr v \<Rightarrow> (case v of Float32s xs \<Rightarrow> Ok xs | _ \<Rightarrow> Panic TypeAssertion))"

definition dimValues_int32 :: "Group \<Rightarrow> string \<Rightarrow> int32 list result" where
  "dimValues_int32 g dimName =
     bindR (getVar g dimName) (\<lambda>dim.
       case Values dim of
         Inl e \<Rightarrow> Err e
       | Inr v \<Rightarrow> (case v of Int32s xs \<Rightarrow> Ok xs | _ \<Rightarrow> Panic TypeAssertion))"

text \<open>The body of the loop that fills \<^verbatim>\<open>s.ts\<close>:
  \<^verbatim>\<open>(int64(h)*3600 + unixSecs1900) * 1000\<close>, in wrapping 64-bit arithmetic.\<close>

definition hoursToMillis :: "int32 \<Rightarrow> int64" where
  "hoursToMillis h = (scast h * 3600 + unixSecs1900) * 1000"

text \<open>\<^verbatim>\<open>NewScanner\<close>. \<^verbatim>\<open>netcdf.Open\<close> is the parameter \<open>netcdfOpen\<close>.\<close>

definition NewScanner :: "(string \<Rightarrow> error + Group) \<Rightarrow> string \<Rightarrow> Scanner result" where
  "NewScanner netcdfOpen filePath =
     (case netcdfOpen filePath of
        Inl e \<Rightarrow> Err e
      | Inr g \<Rightarrow>
          bindR (dimValues_float32 g ''latitude'') (\<lambda>las.
          bindR (dimValues_float32 g ''longitude'') (\<lambda>los.
          bindR (dimValues_int32 g ''time'') (\<lambda>hours.
          bindR (getVar g ''u10'') (\<lambda>gu10.
          bindR (getVar g ''v10'') (\<lambda>gv10.
          bindR (getVar g ''t2m'') (\<lambda>gt2m.
          bindR (getVar g ''sf'') (\<lambda>gsf.
          bindR (getVar g ''tcc'') (\<lambda>gtcc.
          bindR (getVar g ''tp'') (\<lambda>gtp.
            Ok \<lparr>nc = g, la = las, lo = los, ts = map hoursToMillis hours,
                u10 = gu10, v10 = gv10, t2m = gt2m, sf = gsf, tcc = gtcc, tp = gtp,
                pos = 0, recs = [], err = None\<rparr>))))))))))"

text \<open>\<^verbatim>\<open>TotalRecCount\<close>: a product of Go \<^verbatim>\<open>int\<close>s, 64 bits wide on the platforms the
  program is built for.\<close>

definition TotalRecCount :: "Scanner \<Rightarrow> int64" where
  "TotalRecCount s =
     of_nat (length (ts s)) * of_nat (length (la s)) * of_nat (length (lo s)) * 6"

text \<open>
  \<^verbatim>\<open>Scanner.scan\<close>: reads the slice \<^verbatim>\<open>[pos, pos+1)\<close> of one variable. On a read
  error it stores the error and returns \<^verbatim>\<open>(nil, false)\<close>, here \<open>None\<close>. The type
  assertion and the index \<^verbatim>\<open>[0]\<close> can panic.
\<close>

definition scan :: "Scanner \<Rightarrow> VarGetter \<Rightarrow> (int16 list list option \<times> Scanner) result" where
  "scan s vg =
     (let begin = int (pos s); limit = begin + 1 in
      case GetSlice vg begin limit of
        Inl e \<Rightarrow> Ok (None, s\<lparr>err := Some e\<rparr>)
      | Inr v \<Rightarrow>
          (case v of
             Int16Cube c \<Rightarrow> (case c of [] \<Rightarrow> Panic IndexOutOfRange | g # _ \<Rightarrow> Ok (Some g, s))
           | _ \<Rightarrow> Panic TypeAssertion))"

text \<open>The six slices that \<^verbatim>\<open>Scan\<close> holds in local variables.\<close>

record slices =
  u10_slice :: "int16 list list"
  v10_slice :: "int16 list list"
  t2m_slice :: "int16 list list"
  sf_slice :: "int16 list list"
  tcc_slice :: "int16 list list"
  tp_slice :: "int16 list list"

definition cell :: "int16 list list \<Rightarrow> nat \<Rightarrow> nat \<Rightarrow> int16 result" where
  "cell g i j = bindR (index g i) (\<lambda>row. index row j)"

text \<open>The body of the inner loop: the nine assignments to \<^verbatim>\<open>s.recs[k]\<close>. Each index
  expression is checked in the order the source evaluates it.\<close>

definition setRec ::
  "int64 \<Rightarrow> float32 \<Rightarrow> float32 \<Rightarrow> slices \<Rightarrow> nat \<Rightarrow> nat \<Rightarrow> Record list \<Rightarrow> nat \<Rightarrow> Record list result"
where
  "setRec t lat lon sl i j rs k =
     (if k < length rs then
        bindR (cell (u10_slice sl) i j) (\<lambda>a.
        bindR (cell (v10_slice sl) i j) (\<lambda>b.
        bindR (cell (t2m_slice sl) i j) (\<lambda>c.
        bindR (cell (sf_slice sl) i j) (\<lambda>d.
        bindR (cell (tcc_slice sl) i j) (\<lambda>e.
        bindR (cell (tp_slice sl) i j) (\<lambda>f.
          Ok (rs[k := (rs ! k)\<lparr>Timestamp := t, Latitude := lat, Longitude := lon,
                ZonalWind10M := a, MeridionalWind10M := b, Temperature2M := c,
                Snowfall := d, TotalCloudCover := e, TotalPrecipitation := f\<rparr>])))))))
      else Panic IndexOutOfRange)"

text \<open>The inner loop \<^verbatim>\<open>for j, lo := range s.lo\<close>, with the running index \<^verbatim>\<open>k\<close>.\<close>

fun fillRow ::
  "int64 \<Rightarrow> float32 \<Rightarrow> slices \<Rightarrow> nat \<Rightarrow> float32 list \<Rightarrow> nat \<Rightarrow> Record list \<Rightarrow> nat
     \<Rightarrow> (Record list \<times> nat) result"
where
  "fillRow t lat sl i [] j rs k = Ok (rs, k)"
| "fillRow t lat sl i (lon # lons) j rs k =
     bindR (setRec t lat lon sl i j rs k) (\<lambda>rs'. fillRow t lat sl i lons (Suc j) rs' (Suc k))"

text \<open>The outer loop \<^verbatim>\<open>for i, la := range s.la\<close>.\<close>

fun fillGrid ::
  "int64 \<Rightarrow> slices \<Rightarrow> float32 list \<Rightarrow> float32 list \<Rightarrow> nat \<Rightarrow> Record list \<Rightarrow> nat
     \<Rightarrow> (Record list \<times> nat) result"
where
  "fillGrid t sl [] lons i rs k = Ok (rs, k)"
| "fillGrid t sl (lat # lats) lons i rs k =
     bindR (fillRow t lat sl i lons 0 rs k) (\<lambda>(rs', k'). fillGrid t sl lats lons (Suc i) rs' k')"

text \<open>One call of \<^verbatim>\<open>scan\<close> inside \<^verbatim>\<open>Scan\<close>, followed by \<^verbatim>\<open>if !ok { return false }\<close>.\<close>

definition scanOr ::
  "Scanner \<Rightarrow> VarGetter \<Rightarrow> (int16 list list \<Rightarrow> Scanner \<Rightarrow> (bool \<times> Scanner) result)
     \<Rightarrow> (bool \<times> Scanner) result"
where
  "scanOr s vg k =
     bindR (scan s vg) (\<lambda>(r, s'). case r of None \<Rightarrow> Ok (False, s') | Some g \<Rightarrow> k g s')"

text \<open>\<^verbatim>\<open>Scanner.Scan\<close>. Lengths and the cursor are natural numbers: they are lengths of
  slices held in memory and an index into one, far below \<open>2 ^ 63\<close>.\<close>

definition Scan :: "Scanner \<Rightarrow> (bool \<times> Scanner) result" where
  "Scan s =
     (if pos s \<ge> length (ts s) then Ok (False, s)
      else
        scanOr s (u10 s) (\<lambda>gu s1.
        scanOr s1 (v10 s1) (\<lambda>gv s2.
        scanOr s2 (t2m s2) (\<lambda>gt s3.
        scanOr s3 (sf s3) (\<lambda>gs s4.
        scanOr s4 (tcc s4) (\<lambda>gc s5.
        scanOr s5 (tp s5) (\<lambda>gp s6.
          bindR (fillGrid (ts s6 ! pos s6)
                   \<lparr>u10_slice = gu, v10_slice = gv, t2m_slice = gt,
                    sf_slice = gs, tcc_slice = gc, tp_slice = gp\<rparr>
                   (la s6) (lo s6) 0
                   (replicate (length (la s6) * length (lo s6)) zeroRecord) 0)
            (\<lambda>(rs, k). Ok (True, s6\<lparr>recs := rs, pos := pos s6 + 1\<rparr>)))))))))"

text \<open>\<^verbatim>\<open>Scanner.Records\<close>: hands the batch over and clears it.\<close>

definition Records :: "Scanner \<Rightarrow> Record list \<times> Scanner" where
  "Records s = (recs s, s\<lparr>recs := []\<rparr>)"

text \<open>Modelled from the spec: the accessor \<^verbatim>\<open>Scanner.Error\<close>, which \<^verbatim>\<open>main\<close> calls after the
  scan loop and which record.go does not declare. The spec:
  ``\<^verbatim>\<open>error() -> error|none\<close>: returns the last fatal decode error, if any''.\<close>

definition Error :: "Scanner \<Rightarrow> error option" where
  "Error s = err s"

text \<open>Modelled from the spec: the two-argument \<^verbatim>\<open>NewScanner(filePath, limitHours)\<close> that
  \<^verbatim>\<open>main\<close> calls; record.go declares the one-argument constructor only. The spec: ``If a
  time limit is configured, only the first \<^verbatim>\<open>min(limit, len(timestamps))\<close> timestamps are
  iterated''. The flag's help text in \<^verbatim>\<open>main\<close>: ``export only this many hours of data.
  Default: 0 (no limit)''. The limit is a natural number here: a negative flag value is
  outside what the spec describes. Everything else is the source's \<^verbatim>\<open>NewScanner\<close>.\<close>

definition NewScanner_limit ::
  "(string \<Rightarrow> error + Group) \<Rightarrow> string \<Rightarrow> nat \<Rightarrow> Scanner result"
where
  "NewScanner_limit netcdfOpen filePath limitHours =
     bindR (NewScanner netcdfOpen filePath) (\<lambda>s.
       Ok (if limitHours = 0 then s
           else s\<lparr>ts := take (min limitHours (length (ts s))) (ts s)\<rparr>))"

subsection \<open>The formatting library (Go's fmt, strconv and regexp)\<close>

text \<open>
  The encoders call \<^verbatim>\<open>fmt.Sprintf\<close> with the verbs \<^verbatim>\<open>%s\<close>, \<^verbatim>\<open>%d\<close>, \<^verbatim>\<open>%.2f\<close> and
  \<^verbatim>\<open>%[1]s\<close>. The model interprets a format string with these verbs; any other verb, a
  verb applied to an operand of another type, a missing operand and an unused operand
  are \<open>Unmodelled\<close> (Go prints a \<^verbatim>\<open>%!\<close> diagnostic there).
\<close>

definition digitChar :: "nat \<Rightarrow> char" where
  "digitChar d = ''0123456789'' ! d"

text \<open>Decimal digits of a natural number, most significant first.\<close>

fun decimal :: "nat \<Rightarrow> string" where
  "decimal n = (if n < 10 then [digitChar n] else decimal (n div 10) @ [digitChar (n mod 10)])"

declare decimal.simps [simp del]

text \<open>\<^verbatim>\<open>%d\<close> of a signed integer.\<close>

definition fmt_d :: "int \<Rightarrow> string" where
  "fmt_d x = (if x < 0 then CHR ''-'' # decimal (nat (- x)) else decimal (nat x))"

text \<open>The fields of an IEEE-754 binary32 value: sign bit, biased exponent (8 bits),
  fraction (23 bits). A finite value is \<open>f32_mant * 2 ^ f32_pow\<close>, negated when the sign
  bit is set.\<close>

definition f32_sign :: "float32 \<Rightarrow> bool" where
  "f32_sign w = bit w 31"

definition f32_exp :: "float32 \<Rightarrow> nat" where
  "f32_exp w = unat (drop_bit 23 w AND 0xFF)"

definition f32_frac :: "float32 \<Rightarrow> nat" where
  "f32_frac w = unat (w AND 0x7FFFFF)"

definition f32_mant :: "float32 \<Rightarrow> nat" where
  "f32_mant w = (if f32_exp w = 0 then f32_frac w else f32_frac w + 2 ^ 23)"

definition f32_pow :: "float32 \<Rightarrow> int" where
  "f32_pow w = (if f32_exp w = 0 then - 149 else int (f32_exp w) - 150)"

text \<open>\<open>n / d\<close> rounded to the nearest natural number, a tie going to the even one: the
  rounding of \<^verbatim>\<open>strconv\<close>'s exact decimal conversion.\<close>

definition roundHalfEven :: "nat \<Rightarrow> nat \<Rightarrow> nat" where
  "roundHalfEven n d =
     (let q = n div d; r = n mod d
      in if d < 2 * r \<or> (2 * r = d \<and> odd q) then q + 1 else q)"

text \<open>The magnitude of a finite value in hundredths, rounded.\<close>

definition f32_hundredths :: "float32 \<Rightarrow> nat" where
  "f32_hundredths w =
     (if 0 \<le> f32_pow w then f32_mant w * 2 ^ nat (f32_pow w) * 100
      else roundHalfEven (f32_mant w * 100) (2 ^ nat (- f32_pow w)))"

text \<open>\<^verbatim>\<open>%.2f\<close> of a \<^verbatim>\<open>float32\<close>: \<^verbatim>\<open>strconv.AppendFloat(v, 'f', 2, 32)\<close> as \<^verbatim>\<open>fmt\<close>
  prints it.\<close>

definition fmt_f2 :: "float32 \<Rightarrow> string" where
  "fmt_f2 w =
     (if f32_exp w = 255 then
        (if f32_frac w \<noteq> 0 then ''NaN'' else if f32_sign w then ''-Inf'' else ''+Inf'')
      else
        (let q = f32_hundredths w
         in (if f32_sign w then ''-'' else '''') @ decimal (q div 100) @ ''.'' @
            [digitChar (q div 10 mod 10), digitChar (q mod 10)]))"

datatype fmt_arg = ArgString string | ArgFloat32 float32 | ArgInt16 int16 | ArgInt64 int64

definition verb_s :: "fmt_arg list \<Rightarrow> nat \<Rightarrow> string result" where
  "verb_s a n =
     (if n < length a then (case a ! n of ArgString s \<Rightarrow> Ok s | _ \<Rightarrow> Unmodelled)
      else Unmodelled)"

definition verb_d :: "fmt_arg list \<Rightarrow> nat \<Rightarrow> string result" where
  "verb_d a n =
     (if n < length a then
        (case a ! n of
           ArgInt16 x \<Rightarrow> Ok (fmt_d (sint x))
         | ArgInt64 x \<Rightarrow> Ok (fmt_d (sint x))
         | _ \<Rightarrow> Unmodelled)
      else Unmodelled)"

definition verb_f2 :: "fmt_arg list \<Rightarrow> nat \<Rightarrow> string result" where
  "verb_f2 a n =
     (if n < length a then (case a ! n of ArgFloat32 x \<Rightarrow> Ok (fmt_f2 x) | _ \<Rightarrow> Unmodelled)
      else Unmodelled)"

definition emit :: "string result \<Rightarrow> string result \<Rightarrow> string result" where
  "emit x rest = bindR x (\<lambda>s. bindR rest (\<lambda>t. Ok (s @ t)))"

text \<open>The printing loop of \<^verbatim>\<open>fmt\<close>: \<open>argNum\<close> is the index of the next operand,
  \<open>reordered\<close> records that an explicit index \<^verbatim>\<open>[1]\<close> was used (the check for unused
  operands is then skipped).\<close>

fun doPrintf :: "string \<Rightarrow> fmt_arg list \<Rightarrow> nat \<Rightarrow> bool \<Rightarrow> string result" where
  "doPrintf [] a argNum reordered =
     (if reordered \<or> length a \<le> argNum then Ok [] else Unmodelled)"
| "doPrintf (c # cs) a argNum reordered =
     (if c \<noteq> CHR ''%'' then emit (Ok [c]) (doPrintf cs a argNum reordered)
      else if take 1 cs = ''s'' then
        emit (verb_s a argNum) (doPrintf (drop 1 cs) a (argNum + 1) reordered)
      else if take 1 cs = ''d'' then
        emit (verb_d a argNum) (doPrintf (drop 1 cs) a (argNum + 1) reordered)
      else if take 3 cs = ''.2f'' then
        emit (verb_f2 a argNum) (doPrintf (drop 3 cs) a (argNum + 1) reordered)
      else if take 4 cs = ''[1]s'' then
        emit (verb_s a 0) (doPrintf (drop 4 cs) a 1 True)
      else Unmodelled)"

definition Sprintf :: "string \<Rightarrow> fmt_arg list \<Rightarrow> string result" where
  "Sprintf format a = doPrintf format a 0 False"

text \<open>\<^verbatim>\<open>regexp.Match\<close> for the patterns of the shape \<^verbatim>\<open>^[a-bc-d...]+$\<close>: the whole text is a
  non-empty run of bytes from the listed ranges. (Without the \<^verbatim>\<open>m\<close> flag, \<^verbatim>\<open>^\<close> and
  \<^verbatim>\<open>$\<close> match at the two ends of the text only.)\<close>

fun parseRanges :: "string \<Rightarrow> (char \<times> char) list option" where
  "parseRanges [] = Some []"
| "parseRanges (l # m # h # rest) =
     (if m = CHR ''-'' then map_option ((#) (l, h)) (parseRanges rest) else None)"
| "parseRanges _ = None"

definition inRanges :: "(char \<times> char) list \<Rightarrow> char \<Rightarrow> bool" where
  "inRanges rs c =
     list_ex (\<lambda>(l, h). (of_char l :: nat) \<le> of_char c \<and> (of_char c :: nat) \<le> of_char h) rs"

definition regexpMatch :: "string \<Rightarrow> string \<Rightarrow> bool result" where
  "regexpMatch pattern b =
     (if 5 \<le> length pattern \<and> take 2 pattern = ''^['' \<and>
         drop (length pattern - 3) pattern = '']+$''
      then (case parseRanges (take (length pattern - 5) (drop 2 pattern)) of
              Some rs \<Rightarrow> Ok (b \<noteq> [] \<and> list_all (inRanges rs) b)
            | None \<Rightarrow> Unmodelled)
      else Unmodelled)"

subsection \<open>Insert client (internal/vm/client.go)\<close>

text \<open>The encoders write into a \<^verbatim>\<open>strings.Builder\<close>: they take its content \<open>sb\<close> and
  return the content after the write.\<close>

type_synonym recToTextFunc = "string \<Rightarrow> Record \<Rightarrow> string \<Rightarrow> string result"

type_synonym apiParamsFunc = "string \<Rightarrow> (string \<times> string) list result"

definition influxDBFmt :: string where
  "influxDBFmt = ''%s,la=%.2f,lo=%.2f u10=%d,v10=%d,t2m=%d,sf=%d,tcc=%d,tp=%d %d''"

definition recToInfluxDB :: recToTextFunc where
  "recToInfluxDB sb r pfx =
     bindR (Sprintf influxDBFmt
              [ArgString pfx, ArgFloat32 (Latitude r), ArgFloat32 (Longitude r),
               ArgInt16 (ZonalWind10M r), ArgInt16 (MeridionalWind10M r),
               ArgInt16 (Temperature2M r), ArgInt16 (Snowfall r),
               ArgInt16 (TotalCloudCover r), ArgInt16 (TotalPrecipitation r),
               ArgInt64 (Timestamp r)])
       (\<lambda>t. Ok (sb @ t))"

text \<open>The same encoder in the version of client.go that precedes the prefix parameter:
  the measurement name \<open>era5\<close> is part of the format.\<close>

definition influxDBFmt_era5 :: string where
  "influxDBFmt_era5 = ''era5,la=%.2f,lo=%.2f u10=%d,v10=%d,t2m=%d,sf=%d,tcc=%d,tp=%d %d''"

definition recToInfluxDB_era5 :: "string \<Rightarrow> Record \<Rightarrow> string result" where
  "recToInfluxDB_era5 sb r =
     bindR (Sprintf influxDBFmt_era5
              [ArgFloat32 (Latitude r), ArgFloat32 (Longitude r),
               ArgInt16 (ZonalWind10M r), ArgInt16 (MeridionalWind10M r),
               ArgInt16 (Temperature2M r), ArgInt16 (Snowfall r),
               ArgInt16 (TotalCloudCover r), ArgInt16 (TotalPrecipitation r),
               ArgInt64 (Timestamp r)])
       (\<lambda>t. Ok (sb @ t))"

definition csvFmt :: string where
  "csvFmt = ''%d,%.2f,%.2f,%d,%d,%d,%d,%d,%d''"

definition recToCSV :: recToTextFunc where
  "recToCSV sb r _ =
     bindR (Sprintf csvFmt
              [ArgInt64 (Timestamp r), ArgFloat32 (Latitude r), ArgFloat32 (Longitude r),
               ArgInt16 (ZonalWind10M r), ArgInt16 (MeridionalWind10M r),
               ArgInt16 (Temperature2M r), ArgInt16 (Snowfall r),
               ArgInt16 (TotalCloudCover r), ArgInt16 (TotalPrecipitation r)])
       (\<lambda>t. Ok (sb @ t))"

text \<open>The endpoint parameters are Go maps from name to value, here association lists
  (\<^verbatim>\<open>nil\<close> is the empty list).\<close>

definition influxDBAPIParams :: apiParamsFunc where
  "influxDBAPIParams pfx = Ok []"

definition csvAPIParams :: apiParamsFunc where
  "csvAPIParams pfx =
     bindR (Sprintf ('''' @
                     ''1:time:unix_ms,'' @
                     ''2:label:la,'' @
                     ''3:label:lo,'' @
                     ''4:metric:%[1]s_u10,'' @
                     ''5:metric:%[1]s_v10,'' @
                     ''6:metric:%[1]s_t2m,'' @
                     ''7:metric:%[1]s_sf,'' @
                     ''8:metric:%[1]s_tcc,'' @
                     ''9:metric:%[1]s_tp'') [ArgString pfx])
       (\<lambda>v. Ok [(''format'', v)])"

definition apiParamsFuncs :: "string \<rightharpoonup> apiParamsFunc" where
  "apiParamsFuncs = map_of
     [(''/influx/write'', influxDBAPIParams),
      (''/influx/api/v2/write'', influxDBAPIParams),
      (''/write'', influxDBAPIParams),
      (''/api/v2/write'', influxDBAPIParams),
      (''/api/v1/import/csv'', csvAPIParams)]"

definition recToTextFuncs :: "string \<rightharpoonup> recToTextFunc" where
  "recToTextFuncs = map_of
     [(''/influx/write'', recToInfluxDB),
      (''/influx/api/v2/write'', recToInfluxDB),
      (''/write'', recToInfluxDB),
      (''/api/v2/write'', recToInfluxDB),
      (''/api/v1/import/csv'', recToCSV)]"

text \<open>\<^verbatim>\<open>recsToText\<close>: the loop over the records, one line each.\<close>

fun writeRecs :: "string \<Rightarrow> Record list \<Rightarrow> string \<Rightarrow> recToTextFunc \<Rightarrow> string result" where
  "writeRecs sb [] pfx f = Ok sb"
| "writeRecs sb (r # rs) pfx f =
     bindR (f sb r pfx) (\<lambda>sb'. writeRecs (sb' @ [CHR 0x0A]) rs pfx f)"

definition recsToText :: "Record list \<Rightarrow> string \<Rightarrow> recToTextFunc \<Rightarrow> string result" where
  "recsToText rs pfx f = writeRecs [] rs pfx f"

text \<open>The parts of a parsed \<^verbatim>\<open>url.URL\<close> that \<^verbatim>\<open>NewClient\<close> uses. The query is held as
  \<^verbatim>\<open>url.Values\<close>, a map from a name to the list of its values: \<^verbatim>\<open>url.Query()\<close> and
  \<^verbatim>\<open>q.Encode()\<close> convert between it and \<^verbatim>\<open>RawQuery\<close>. Parsing and printing a URL
  belong to \<^verbatim>\<open>net/url\<close> and are parameters of \<^verbatim>\<open>NewClient\<close>.\<close>

record URL =
  Path :: string
  Query :: "string \<Rightarrow> string list"

definition Values_Add :: "(string \<Rightarrow> string list) \<Rightarrow> string \<Rightarrow> string \<Rightarrow> (string \<Rightarrow> string list)" where
  "Values_Add q name v = q(name := q name @ [v])"

definition metricPrefixRE :: string where
  "metricPrefixRE = ''^[a-zA-Z0-9]+$''"

text \<open>The client. Of the HTTP transport only the connection bound is kept.\<close>

record Client =
  httpCli :: int
  insertURL :: string
  metricPrefix :: string
  recToText :: recToTextFunc

definition NewClient ::
  "(string \<Rightarrow> error + URL) \<Rightarrow> (URL \<Rightarrow> string) \<Rightarrow> string \<Rightarrow> int \<Rightarrow> string \<Rightarrow> Client result"
where
  "NewClient urlParse urlString rawURL maxConns pfx =
     (case urlParse rawURL of
        Inl e \<Rightarrow> Err e
      | Inr url \<Rightarrow>
          bindR (regexpMatch metricPrefixRE pfx) (\<lambda>matches.
            if \<not> matches then
              Err (Errorf ''metric prefix %q does not match %q regular expression''
                     [pfx, metricPrefixRE])
            else
              (case apiParamsFuncs (Path url) of
                 None \<Rightarrow> Err (Errorf ''inserting into %q is not supported'' [rawURL])
               | Some apiParams \<Rightarrow>
                   bindR (apiParams pfx) (\<lambda>params.
                     let q = foldl (\<lambda>q (name, v). Values_Add q name v) (Query url) params;
                         url' = url\<lparr>Query := q\<rparr>
                     in (case recToTextFuncs (Path url') of
                           None \<Rightarrow> Err (Errorf ''inserting into %q is not supported'' [rawURL])
                         | Some f \<Rightarrow>
                             Ok \<lparr>httpCli = maxConns, insertURL = urlString url',
                                 metricPrefix = pfx, recToText = f\<rparr>)))))"

text \<open>The HTTP exchange of \<^verbatim>\<open>Insert\<close>. A response body is a reader: it yields
  \<open>unread\<close> and then ends, at the end of the data or with a read error.\<close>

record Body =
  unread :: string
  readError :: "error option"

record Response =
  StatusCode :: int
  ResponseBody :: Body

text \<open>What \<^verbatim>\<open>Insert\<close> does, in order: the request, log lines, the bytes that
  \<^verbatim>\<open>io.Copy(io.Discard, res.Body)\<close> has read and whether it reached the end of the body,
  and closing the body.\<close>

datatype event =
    Post string string string
  | LogError string
  | Discarded string bool
  | BodyClosed

definition StatusNoContent :: int where
  "StatusNoContent = 204"

definition Insert ::
  "Client \<Rightarrow> (string \<Rightarrow> string \<Rightarrow> string \<Rightarrow> error + Response) \<Rightarrow> Record list \<Rightarrow> event list result"
where
  "Insert c httpPost rs =
     bindR (recsToText rs (metricPrefix c) (recToText c)) (\<lambda>text.
       case httpPost (insertURL c) ''text/plain'' text of
         Inl e \<Rightarrow> Ok [Post (insertURL c) ''text/plain'' text, LogError ''Could not post data'']
       | Inr res \<Rightarrow>
           Ok ([Post (insertURL c) ''text/plain'' text] @
               (if StatusCode res \<noteq> StatusNoContent then [LogError ''Unexpected status'']
                else []) @
               (case readError (ResponseBody res) of
                  Some e \<Rightarrow> [Discarded (unread (ResponseBody res)) False,
                             LogError ''Failed to drain response body'']
                | None \<Rightarrow> [Discarded (unread (ResponseBody res)) True]) @
               [BodyClosed]))"

subsection \<open>Pipeline (main.go)\<close>

text \<open>The producer loop of \<^verbatim>\<open>main\<close>: \<^verbatim>\<open>for s.Scan() { extracted <- s.Records() }\<close>. The
  batches sent on the channel are collected in order. \<open>None\<close> would be a loop that never
  ends.\<close>

partial_function (option) produce ::
  "Scanner \<Rightarrow> Record list list \<Rightarrow> (Record list list \<times> Scanner) result option"
where
  "produce s extracted =
     (case Scan s of
        Panic p \<Rightarrow> Some (Panic p)
      | Err e \<Rightarrow> Some (Err e)
      | Unmodelled \<Rightarrow> Some Unmodelled
      | Ok (ok, s1) \<Rightarrow>
          (if ok then (case Records s1 of (batch, s2) \<Rightarrow> produce s2 (extracted @ [batch]))
           else Some (Ok (extracted, s1))))"

text \<open>Arithmetic on Go's \<^verbatim>\<open>int\<close>, 64 bits wide: a result outside the range wraps around.\<close>

definition wrap64 :: "int \<Rightarrow> int" where
  "wrap64 x = signed_take_bit 63 x"

text \<open>The slice expression \<^verbatim>\<open>recs[begin:limit]\<close> of a slice whose capacity is its length.
  Go panics on bounds out of order or out of range.\<close>

definition sliceOf :: "'a list \<Rightarrow> int \<Rightarrow> int \<Rightarrow> 'a list result" where
  "sliceOf xs b l =
     (if 0 \<le> b \<and> b \<le> l \<and> l \<le> int (length xs)
      then Ok (take (nat (l - b)) (drop (nat b) xs))
      else Panic SliceBounds)"

text \<open>What a worker does that others can observe: a call of \<^verbatim>\<open>vmCli.Insert\<close> with a
  chunk, and a count sent on the channel \<^verbatim>\<open>loaded\<close>.\<close>

datatype worker_event = InsertCall "Record list" | Loaded int

text \<open>The inner loop of a worker,
  \<^verbatim>\<open>for i := 0; i < n; i += *recsPerInsert { ... vmCli.Insert(recs[begin:limit]) }\<close>, from
  the state \<open>i\<close> on. \<open>None\<close> is a loop that never ends.\<close>

partial_function (option) insertChunks ::
  "int \<Rightarrow> Record list \<Rightarrow> int \<Rightarrow> worker_event list \<Rightarrow> worker_event list result option"
where
  "insertChunks recsPerInsert rs i evs =
     (if i < int (length rs) then
        (case sliceOf rs i
                (if int (length rs) < wrap64 (i + recsPerInsert) then int (length rs)
                 else wrap64 (i + recsPerInsert)) of
           Panic p \<Rightarrow> Some (Panic p)
         | Err e \<Rightarrow> Some (Err e)
         | Unmodelled \<Rightarrow> Some Unmodelled
         | Ok chunk \<Rightarrow>
             insertChunks recsPerInsert rs (wrap64 (i + recsPerInsert)) (evs @ [InsertCall chunk]))
      else Some (Ok evs))"

text \<open>The body of the worker's outer loop for one batch taken from the channel
  \<^verbatim>\<open>extracted\<close>: the chunked inserts, then \<^verbatim>\<open>loaded <- n\<close>.\<close>

definition loadBatch :: "int \<Rightarrow> Record list \<Rightarrow> worker_event list result option" where
  "loadBatch recsPerInsert rs =
     (case insertChunks recsPerInsert rs 0 [] of
        None \<Rightarrow> None
      | Some r \<Rightarrow> Some (bindR r (\<lambda>evs. Ok (evs @ [Loaded (int (length rs))]))))"

section \<open>Vocabulary of the statements\<close>

subsection \<open>Scanner\<close>

text \<open>The record that one grid cell \<open>(i, j)\<close> of the slices \<open>sl\<close> gives at timestamp \<open>t\<close>.\<close>

definition gridRecord :: "int64 \<Rightarrow> slices \<Rightarrow> float32 \<Rightarrow> float32 \<Rightarrow> nat \<Rightarrow> nat \<Rightarrow> Record" where
  "gridRecord t sl lat lon i j =
     \<lparr>Timestamp = t, Latitude = lat, Longitude = lon,
      ZonalWind10M = u10_slice sl ! i ! j, MeridionalWind10M = v10_slice sl ! i ! j,
      Temperature2M = t2m_slice sl ! i ! j, Snowfall = sf_slice sl ! i ! j,
      TotalCloudCover = tcc_slice sl ! i ! j, TotalPrecipitation = tp_slice sl ! i ! j\<rparr>"

text \<open>The slice of one variable at position \<open>p\<close>, when the read succeeds and has the
  expected dynamic type.\<close>

definition sliceAt :: "VarGetter \<Rightarrow> nat \<Rightarrow> int16 list list option" where
  "sliceAt vg p =
     (case GetSlice vg (int p) (int p + 1) of
        Inr (Int16Cube (g # _)) \<Rightarrow> Some g
      | _ \<Rightarrow> None)"

text \<open>A whole batch in row-major order: latitude index outer, longitude index inner.\<close>

definition batchOf :: "Scanner \<Rightarrow> slices \<Rightarrow> Record list" where
  "batchOf s sl =
     concat (map (\<lambda>i. map (\<lambda>j. gridRecord (ts s ! pos s) sl (la s ! i) (lo s ! j) i j)
                         [0..<length (lo s)])
                 [0..<length (la s)])"

text \<open>The six slices at the scanner's cursor.\<close>

definition readSlices :: "Scanner \<Rightarrow> slices option" where
  "readSlices s =
     (case (sliceAt (u10 s) (pos s), sliceAt (v10 s) (pos s), sliceAt (t2m s) (pos s),
            sliceAt (sf s) (pos s), sliceAt (tcc s) (pos s), sliceAt (tp s) (pos s)) of
        (Some gu, Some gv, Some gt, Some gs, Some gc, Some gp) \<Rightarrow>
          Some \<lparr>u10_slice = gu, v10_slice = gv, t2m_slice = gt,
                sf_slice = gs, tcc_slice = gc, tp_slice = gp\<rparr>
      | _ \<Rightarrow> None)"

text \<open>Cell \<open>(i, j)\<close> exists in each of the six slices.\<close>

definition inRange :: "slices \<Rightarrow> nat \<Rightarrow> nat \<Rightarrow> bool" where
  "inRange sl i j \<longleftrightarrow>
     list_all (\<lambda>g. i < length g \<and> j < length (g ! i))
       [u10_slice sl, v10_slice sl, t2m_slice sl, sf_slice sl, tcc_slice sl, tp_slice sl]"

text \<open>The six variable getters, in the order \<^verbatim>\<open>Scan\<close> reads them.\<close>

definition getters :: "Scanner \<Rightarrow> VarGetter list" where
  "getters s = [u10 s, v10 s, t2m s, sf s, tcc s, tp s]"

text \<open>The error of the first read that fails when the getters are read in order at
  position \<open>p\<close>, each read before it having returned a slice.\<close>

fun firstReadError :: "VarGetter list \<Rightarrow> nat \<Rightarrow> error option" where
  "firstReadError [] p = None"
| "firstReadError (vg # vgs) p =
     (case GetSlice vg (int p) (int p + 1) of
        Inl e \<Rightarrow> Some e
      | Inr v \<Rightarrow> (case sliceAt vg p of None \<Rightarrow> None | Some g \<Rightarrow> firstReadError vgs p))"

text \<open>The 32-bit hour counts of the file's \<^verbatim>\<open>time\<close> variable, as \<^verbatim>\<open>NewScanner\<close> reads
  them.\<close>

definition timeHours :: "(string \<Rightarrow> error + Group) \<Rightarrow> string \<Rightarrow> int32 list option" where
  "timeHours netcdfOpen filePath =
     (case netcdfOpen filePath of
        Inl e \<Rightarrow> None
      | Inr g \<Rightarrow> (case dimValues_int32 g ''time'' of Ok hours \<Rightarrow> Some hours | _ \<Rightarrow> None))"

text \<open>At position \<open>p\<close> the six reads succeed and every slice has a cell for each
  (latitude, longitude) pair.\<close>

definition wellFormedAt :: "Scanner \<Rightarrow> nat \<Rightarrow> bool" where
  "wellFormedAt s p =
     (case readSlices (s\<lparr>pos := p\<rparr>) of
        None \<Rightarrow> False
      | Some sl \<Rightarrow>
          list_all (\<lambda>i. list_all (\<lambda>j. inRange sl i j) [0..<length (lo s)])
            [0..<length (la s)])"

text \<open>The source is well formed at every timestamp of the scanner.\<close>

definition wellFormed :: "Scanner \<Rightarrow> bool" where
  "wellFormed s = list_all (wellFormedAt s) [0..<length (ts s)]"

subsection \<open>Encoders\<close>

text \<open>The number that a string of decimal digits denotes.\<close>

definition decimalValue :: "string \<Rightarrow> nat" where
  "decimalValue s = foldl (\<lambda>a c. 10 * a + (of_char c - 48)) 0 s"

text \<open>A non-empty string of decimal digits.\<close>

definition isDigits :: "string \<Rightarrow> bool" where
  "isDigits s \<longleftrightarrow> s \<noteq> [] \<and> list_all (\<lambda>c. c \<in> set ''0123456789'') s"

text \<open>The magnitude of a finite \<^verbatim>\<open>float32\<close>, as a real number.\<close>

definition f32_abs :: "float32 \<Rightarrow> real" where
  "f32_abs w =
     (if 0 \<le> f32_pow w then real (f32_mant w) * 2 ^ nat (f32_pow w)
      else real (f32_mant w) / 2 ^ nat (- f32_pow w))"

text \<open>An optional minus sign followed by decimal digits.\<close>

definition isSignedDecimal :: "string \<Rightarrow> bool" where
  "isSignedDecimal s \<longleftrightarrow> isDigits (if take 1 s = ''-'' then drop 1 s else s)"

text \<open>An optional minus sign, decimal digits, a point and exactly two decimal digits.\<close>

definition isFixed2 :: "string \<Rightarrow> bool" where
  "isFixed2 s \<longleftrightarrow>
     (let t = (if take 1 s = ''-'' then drop 1 s else s)
      in 4 \<le> length t \<and> isDigits (take (length t - 3) t) \<and>
         take 1 (drop (length t - 3) t) = ''.'' \<and> isDigits (drop (length t - 2) t))"

text \<open>The distance between neighbouring \<^verbatim>\<open>float32\<close> values around a finite value.\<close>

definition f32_ulp :: "float32 \<Rightarrow> real" where
  "f32_ulp w = (if 0 \<le> f32_pow w then 2 ^ nat (f32_pow w) else 1 / 2 ^ nat (- f32_pow w))"

text \<open>\<open>w\<close> is the \<^verbatim>\<open>float32\<close> that the real number \<open>x\<close> rounds to: finite, of the sign of
  \<open>x\<close>, and closer to \<open>x\<close> than half the distance to its neighbours.\<close>

definition nearestFloat32 :: "real \<Rightarrow> float32 \<Rightarrow> bool" where
  "nearestFloat32 x w \<longleftrightarrow>
     f32_exp w \<noteq> 255 \<and> f32_sign w = (x < 0) \<and> 2 * \<bar>f32_abs w - \<bar>x\<bar>\<bar> < f32_ulp w"

text \<open>The column mapping of the CSV endpoint for a prefix, as the specification writes
  it.\<close>

definition csvFormatParam :: "string \<Rightarrow> string" where
  "csvFormatParam p =
     ''1:time:unix_ms,2:label:la,3:label:lo,4:metric:'' @ p @ ''_u10,5:metric:'' @ p @
     ''_v10,6:metric:'' @ p @ ''_t2m,7:metric:'' @ p @ ''_sf,8:metric:'' @ p @
     ''_tcc,9:metric:'' @ p @ ''_tp''"

text \<open>The bytes that the pattern \<^verbatim>\<open>^[a-zA-Z0-9]+$\<close> admits.\<close>

definition alnumRanges :: "(char \<times> char) list" where
  "alnumRanges = [(CHR ''a'', CHR ''z''), (CHR ''A'', CHR ''Z''), (CHR ''0'', CHR ''9'')]"

subsection \<open>Chunking\<close>

text \<open>The specification's chunking: contiguous chunks of at most \<open>k\<close> elements, in order,
  the last one possibly shorter.\<close>

fun chunksOf :: "nat \<Rightarrow> 'a list \<Rightarrow> 'a list list" where
  "chunksOf k xs =
     (if k = 0 \<or> length xs = 0 then [] else take k xs # chunksOf k (drop k xs))"

declare chunksOf.simps [simp del]

section \<open>Concrete inputs\<close>

subsection \<open>A source file and scanners on it\<close>

text \<open>A file with two latitudes, three longitudes and two timestamps (hours 0 and 438300).\<close>

definition exampleCube :: "int16 \<Rightarrow> int16 list list list" where
  "exampleCube b = [[[b, b + 1, b + 2], [b + 3, b + 4, b + 5]],
                    [[b + 6, b + 7, b + 8], [b + 9, b + 10, b + 11]]]"

definition exampleVar :: "int16 list list list \<Rightarrow> VarGetter" where
  "exampleVar c =
     \<lparr>Values = Inr (Int16Cube c),
      GetSlice = (\<lambda>b l. if 0 \<le> b \<and> b \<le> l \<and> l \<le> int (length c)
                          then Inr (Int16Cube (take (nat (l - b)) (drop (nat b) c)))
                          else Inl (ErrorString ''slice out of range''))\<rparr>"

definition exampleDim :: "nc_value \<Rightarrow> VarGetter" where
  "exampleDim v = \<lparr>Values = Inr v, GetSlice = (\<lambda>b l. Inl (ErrorString ''not a sliced variable''))\<rparr>"

definition exampleGroup :: Group where
  "exampleGroup =
     \<lparr>GetVarGetter = (\<lambda>name.
        if name = ''latitude'' then Inr (exampleDim (Float32s [0x42480000, 0x42470000]))
        else if name = ''longitude'' then Inr (exampleDim (Float32s [0x41000000, 0x41040000, 0x41080000]))
        else if name = ''time'' then Inr (exampleDim (Int32s [0, 438300]))
        else if name = ''u10'' then Inr (exampleVar (exampleCube 100))
        else if name = ''v10'' then Inr (exampleVar (exampleCube 200))
        else if name = ''t2m'' then Inr (exampleVar (exampleCube 300))
        else if name = ''sf'' then Inr (exampleVar (exampleCube 400))
        else if name = ''tcc'' then Inr (exampleVar (exampleCube 500))
        else if name = ''tp'' then Inr (exampleVar (exampleCube 600))
        else Inl (ErrorString ''variable not found''))\<rparr>"

definition exampleOpen :: "string \<Rightarrow> error + Group" where
  "exampleOpen path = (if path = ''era5.nc'' then Inr exampleGroup else Inl (ErrorString ''no such file''))"

definition exampleScanner :: Scanner where
  "exampleScanner =
     \<lparr>nc = exampleGroup, la = [0x42480000, 0x42470000], lo = [0x41000000, 0x41040000, 0x41080000],
      ts = [- 2208988800000, - 631108800000],
      u10 = exampleVar (exampleCube 100), v10 = exampleVar (exampleCube 200),
      t2m = exampleVar (exampleCube 300), sf = exampleVar (exampleCube 400),
      tcc = exampleVar (exampleCube 500), tp = exampleVar (exampleCube 600),
      pos = 0, recs = [], err = None\<rparr>"

definition exampleBatch :: "Record list" where
  "exampleBatch = 
    [\<lparr>Timestamp = - 2208988800000, Latitude = 0x42480000, Longitude = 0x41000000,
      ZonalWind10M = 100, MeridionalWind10M = 200, Temperature2M = 300, Snowfall = 400, TotalCloudCover = 500, TotalPrecipitation = 600\<rparr>,
     \<lparr>Timestamp = - 2208988800000, Latitude = 0x42480000, Longitude = 0x41040000,
      ZonalWind10M = 101, MeridionalWind10M = 201, Temperature2M = 301, Snowfall = 401, TotalCloudCover = 501, TotalPrecipitation = 601\<rparr>,
     \<lparr>Timestamp = - 2208988800000, Latitude = 0x42480000, Longitude = 0x41080000,
      ZonalWind10M = 102, MeridionalWind10M = 202, Temperature2M = 302, Snowfall = 402, TotalCloudCover = 502, TotalPrecipitation = 602\<rparr>,
     \<lparr>Timestamp = - 2208988800000, Latitude = 0x42470000, Longitude = 0x41000000,
      ZonalWind10M = 103, MeridionalWind10M = 203, Temperature2M = 303, Snowfall = 403, TotalCloudCover = 503, TotalPrecipitation = 603\<rparr>,
     \<lparr>Timestamp = - 2208988800000, Latitude = 0x42470000, Longitude = 0x41040000,
      ZonalWind10M = 104, MeridionalWind10M = 204, Temperature2M = 304, Snowfall = 404, TotalCloudCover = 504, TotalPrecipitation = 604\<rparr>,
     \<lparr>Timestamp = - 2208988800000, Latitude = 0x42470000, Longitude = 0x41080000,
      ZonalWind10M = 105, MeridionalWind10M = 205, Temperature2M = 305, Snowfall = 405, TotalCloudCover = 505, TotalPrecipitation = 605\<rparr>]"

definition exhaustedScanner :: Scanner where
  "exhaustedScanner = exampleScanner\<lparr>pos := 2\<rparr>"

definition failingVar :: VarGetter where
  "failingVar = \<lparr>Values = Inl (ErrorString ''read failed''),
                 GetSlice = (\<lambda>b l. Inl (ErrorString ''read failed''))\<rparr>"

definition failingScanner :: Scanner where
  "failingScanner = exampleScanner\<lparr>t2m := failingVar, recs := exampleBatch, pos := 1\<rparr>"

definition limitedScanner :: Scanner where
  "limitedScanner = exampleScanner\<lparr>ts := [- 2208988800000]\<rparr>"

subsection \<open>Records, URLs and servers\<close>

text \<open>The record of the specification's encoding examples. Its coordinates are the
  \<^verbatim>\<open>float32\<close> values of the Go constants \<^verbatim>\<open>12.345\<close> and \<^verbatim>\<open>-98.765\<close>, by their bit
  patterns.\<close>

definition exampleRecord :: Record where
  "exampleRecord = \<lparr>Timestamp = 1000, Latitude = 0x4145851F, Longitude = 0xC2C587AE,
     ZonalWind10M = 1, MeridionalWind10M = 2, Temperature2M = 3, Snowfall = 4,
     TotalCloudCover = 5, TotalPrecipitation = 6\<rparr>"

text \<open>A record whose latitude is NaN.\<close>

definition nanRecord :: Record where
  "nanRecord = exampleRecord\<lparr>Latitude := 0x7FC00000\<rparr>"

definition emptyQuery :: "string \<Rightarrow> string list" where
  "emptyQuery name = []"

definition exampleParse :: "string \<Rightarrow> error + URL" where
  "exampleParse rawURL =
     (if rawURL = ''http://localhost:8428/write''
      then Inr \<lparr>Path = ''/write'', Query = emptyQuery\<rparr>
      else if rawURL = ''http://localhost:8428/api/v1/import/csv''
      then Inr \<lparr>Path = ''/api/v1/import/csv'', Query = emptyQuery\<rparr>
      else Inl (ErrorString ''parse error''))"

definition exampleURLString :: "URL \<Rightarrow> string" where
  "exampleURLString u =
     ''http://localhost:8428'' @ Path u @ concat (map (\<lambda>v. ''?format='' @ v) (Query u ''format''))"

definition exampleClient :: Client where
  "exampleClient = \<lparr>httpCli = 8, insertURL = ''http://localhost:8428/write'',
     metricPrefix = ''era5'', recToText = recToInfluxDB\<rparr>"

text \<open>A server that answers ``no content'' with a body whose read breaks off.\<close>

definition brokenBodyPost :: "string \<Rightarrow> string \<Rightarrow> string \<Rightarrow> error + Response" where
  "brokenBodyPost u contentType body =
     Inr \<lparr>StatusCode = 204,
          ResponseBody = \<lparr>unread = ''par'', readError = Some (ErrorString ''connection reset'')\<rparr>\<rparr>"

text \<open>A server that answers with status 500 and a complete body.\<close>

definition serverErrorPost :: "string \<Rightarrow> string \<Rightarrow> string \<Rightarrow> error + Response" where
  "serverErrorPost u contentType body =
     Inr \<lparr>StatusCode = 500, ResponseBody = \<lparr>unread = ''overloaded'', readError = None\<rparr>\<rparr>"

section \<open>Verified properties\<close>

subsection \<open>Scanner: one step\<close>

lemma cell_Ok: "cell g i j = Ok x \<Longrightarrow> i < length g \<and> j < length (g ! i) \<and> x = g ! i ! j"
  by (auto simp: cell_def index_def split: if_splits)

lemma bindR_Ok: "bindR r f = Ok y \<Longrightarrow> \<exists>x. r = Ok x \<and> f x = Ok y"
  by (cases r) auto

lemma Record_update_all:
  "(r::Record)\<lparr>Timestamp := t, Latitude := lat, Longitude := lon,
      ZonalWind10M := a, MeridionalWind10M := b, Temperature2M := c,
      Snowfall := d, TotalCloudCover := e, TotalPrecipitation := f\<rparr> =
   \<lparr>Timestamp = t, Latitude = lat, Longitude = lon,
      ZonalWind10M = a, MeridionalWind10M = b, Temperature2M = c,
      Snowfall = d, TotalCloudCover = e, TotalPrecipitation = f\<rparr>"
  by (cases r) simp

lemma setRec_Ok:
  assumes "setRec t lat lon sl i j rs k = Ok rs'"
  shows "k < length rs \<and> rs' = rs[k := gridRecord t sl lat lon i j]"
  using assms unfolding setRec_def gridRecord_def
  by (auto simp: Record_update_all split: if_splits dest!: bindR_Ok cell_Ok)

lemma fillRow_Ok:
  "fillRow t lat sl i lons j rs k = Ok (rs', k') \<Longrightarrow> k \<le> length rs \<Longrightarrow>
     k' = k + length lons \<and> k' \<le> length rs \<and>
     rs' = take k rs @ map (\<lambda>m. gridRecord t sl lat (lons ! m) i (j + m)) [0..<length lons] @ drop k' rs"
proof (induction lons arbitrary: j rs k)
  case Nil
  then show ?case by simp
next
  case (Cons lon lons)
  from Cons.prems obtain rs1 where
    1: "setRec t lat lon sl i j rs k = Ok rs1" and
    2: "fillRow t lat sl i lons (Suc j) rs1 (Suc k) = Ok (rs', k')"
    by (auto dest!: bindR_Ok)
  from setRec_Ok[OF 1] have k: "k < length rs" and rs1: "rs1 = rs[k := gridRecord t sl lat lon i j]"
    by auto
  have len: "Suc k \<le> length rs1" using k by (simp add: rs1)
  from Cons.IH[OF 2 len] have k': "k' = Suc k + length lons" and le: "k' \<le> length rs1"
    and rs': "rs' = take (Suc k) rs1 @ map (\<lambda>m. gridRecord t sl lat (lons ! m) i (Suc j + m)) [0..<length lons] @ drop k' rs1"
    by auto
  have a: "take (Suc k) rs1 = take k rs @ [gridRecord t sl lat lon i j]"
    using k by (simp add: rs1 take_Suc_conv_app_nth)
  have b: "drop k' rs1 = drop k' rs"
    using k by (simp add: rs1 k')
  have c: "map (\<lambda>m. gridRecord t sl lat ((lon # lons) ! m) i (j + m)) [0..<length (lon # lons)]
         = gridRecord t sl lat lon i j # map (\<lambda>m. gridRecord t sl lat (lons ! m) i (Suc j + m)) [0..<length lons]"
    by (simp add: map_upt_Suc del: upt_Suc)
  have "rs' = take k rs @ map (\<lambda>m. gridRecord t sl lat ((lon # lons) ! m) i (j + m)) [0..<length (lon # lons)] @ drop k' rs"
    unfolding rs' a b c by simp
  moreover have "k' = k + length (lon # lons)" using k' by simp
  moreover have "k' \<le> length rs" using le by (simp add: rs1)
  ultimately show ?case by blast
qed

lemma fillGrid_Ok:
  "fillGrid t sl lats lons i rs k = Ok (rs', k') \<Longrightarrow> k \<le> length rs \<Longrightarrow>
     k' = k + length lats * length lons \<and> k' \<le> length rs \<and>
     rs' = take k rs @
           concat (map (\<lambda>a. map (\<lambda>b. gridRecord t sl (lats ! a) (lons ! b) (i + a) b) [0..<length lons])
                       [0..<length lats]) @
           drop k' rs"
proof (induction lats arbitrary: i rs k)
  case Nil
  then show ?case by simp
next
  case (Cons lat lats)
  from Cons.prems obtain rs1 k1 where
    1: "fillRow t lat sl i lons 0 rs k = Ok (rs1, k1)" and
    2: "fillGrid t sl lats lons (Suc i) rs1 k1 = Ok (rs', k')"
    by (auto dest!: bindR_Ok)
  let ?row = "map (\<lambda>b. gridRecord t sl lat (lons ! b) i b) [0..<length lons]"
  let ?rest = "concat (map (\<lambda>a. map (\<lambda>b. gridRecord t sl (lats ! a) (lons ! b) (Suc i + a) b) [0..<length lons])
                       [0..<length lats])"
  from fillRow_Ok[OF 1 Cons.prems(2)] have k1: "k1 = k + length lons" and le1: "k1 \<le> length rs"
    and rs1: "rs1 = take k rs @ ?row @ drop k1 rs"
    by auto
  have len1: "length rs1 = length rs" using le1 Cons.prems(2) by (simp add: rs1 k1)
  from Cons.IH[OF 2] le1 len1 have k': "k' = k1 + length lats * length lons" and le: "k' \<le> length rs1"
    and rs': "rs' = take k1 rs1 @ ?rest @ drop k' rs1"
    by auto
  have a: "take k1 rs1 = take k rs @ ?row"
    using Cons.prems(2) by (simp add: rs1 k1)
  have b: "drop k' rs1 = drop k' rs"
    using Cons.prems(2) le1 by (simp add: rs1 k1 k' add.commute)
  have c: "concat (map (\<lambda>a. map (\<lambda>b. gridRecord t sl ((lat # lats) ! a) (lons ! b) (i + a) b) [0..<length lons])
                       [0..<length (lat # lats)]) = ?row @ ?rest"
    by (simp add: map_upt_Suc del: upt_Suc)
  have "rs' = take k rs @ concat (map (\<lambda>a. map (\<lambda>b. gridRecord t sl ((lat # lats) ! a) (lons ! b) (i + a) b) [0..<length lons])
                       [0..<length (lat # lats)]) @ drop k' rs"
    unfolding rs' a b c by simp
  moreover have "k' = k + length (lat # lats) * length lons" using k' k1 by simp
  moreover have "k' \<le> length rs" using le len1 by simp
  ultimately show ?case by blast
qed

lemma scan_Some: "scan s vg = Ok (Some g, s') \<Longrightarrow> s' = s \<and> sliceAt vg (pos s) = Some g"
  by (auto simp: scan_def sliceAt_def Let_def split: sum.splits nc_value.splits list.splits)

lemma scanOr_True:
  "scanOr s vg k = Ok (True, s') \<Longrightarrow> \<exists>g. sliceAt vg (pos s) = Some g \<and> k g s = Ok (True, s')"
  unfolding scanOr_def
  by (auto dest!: bindR_Ok scan_Some split: option.splits)

lemma Scan_True:
  assumes "Scan s = Ok (True, s')"
  shows "\<exists>gu gv gt gs gc gp.
           sliceAt (u10 s) (pos s) = Some gu \<and> sliceAt (v10 s) (pos s) = Some gv \<and>
           sliceAt (t2m s) (pos s) = Some gt \<and> sliceAt (sf s) (pos s) = Some gs \<and>
           sliceAt (tcc s) (pos s) = Some gc \<and> sliceAt (tp s) (pos s) = Some gp \<and>
           pos s < length (ts s) \<and>
           s' = s\<lparr>recs := batchOf s \<lparr>u10_slice = gu, v10_slice = gv, t2m_slice = gt,
                    sf_slice = gs, tcc_slice = gc, tp_slice = gp\<rparr>, pos := pos s + 1\<rparr>"
proof -
  from assms have lt: "pos s < length (ts s)"
    by (auto simp: Scan_def split: if_splits)
  let ?z = "replicate (length (la s) * length (lo s)) zeroRecord"
  from assms lt obtain gu gv gt gs gc gp where
    sl: "sliceAt (u10 s) (pos s) = Some gu" "sliceAt (v10 s) (pos s) = Some gv"
        "sliceAt (t2m s) (pos s) = Some gt" "sliceAt (sf s) (pos s) = Some gs"
        "sliceAt (tcc s) (pos s) = Some gc" "sliceAt (tp s) (pos s) = Some gp"
    and fill: "bindR (fillGrid (ts s ! pos s)
                   \<lparr>u10_slice = gu, v10_slice = gv, t2m_slice = gt,
                    sf_slice = gs, tcc_slice = gc, tp_slice = gp\<rparr>
                   (la s) (lo s) 0 ?z 0)
            (\<lambda>(rs, k). Ok (True, s\<lparr>recs := rs, pos := pos s + 1\<rparr>)) = Ok (True, s')"
    unfolding Scan_def by (auto dest!: scanOr_True)
  let ?sl = "\<lparr>u10_slice = gu, v10_slice = gv, t2m_slice = gt,
                    sf_slice = gs, tcc_slice = gc, tp_slice = gp\<rparr>"
  from fill obtain rs k where
    fg: "fillGrid (ts s ! pos s) ?sl (la s) (lo s) 0 ?z 0 = Ok (rs, k)"
    and s': "s' = s\<lparr>recs := rs, pos := pos s + 1\<rparr>"
    by (auto dest!: bindR_Ok)
  from fillGrid_Ok[OF fg] have "rs = batchOf s ?sl"
    by (simp add: batchOf_def)
  with sl lt s' show ?thesis by blast
qed

lemma example_NewScanner: "NewScanner exampleOpen ''era5.nc'' = Ok exampleScanner"
  by (simp add: NewScanner_def exampleOpen_def exampleGroup_def dimValues_float32_def
      dimValues_int32_def getVar_def exampleDim_def exampleScanner_def hoursToMillis_def unixSecs1900_def)

lemma example_Scan:
  "Scan exampleScanner = Ok (True, exampleScanner\<lparr>recs := exampleBatch, pos := 1\<rparr>)"
  by (simp add: Scan_def scanOr_def scan_def exampleScanner_def exampleVar_def exampleCube_def
        setRec_def cell_def index_def zeroRecord_def exampleBatch_def Let_def)

lemma setRec_inRange: "setRec t lat lon sl i j rs k = Ok rs' \<Longrightarrow> inRange sl i j"
  unfolding setRec_def inRange_def
  by (auto split: if_splits dest!: bindR_Ok cell_Ok)

lemma fillRow_inRange:
  "fillRow t lat sl i lons j rs k = Ok r \<Longrightarrow> m < length lons \<Longrightarrow> inRange sl i (j + m)"
proof (induction lons arbitrary: j rs k m)
  case Nil
  then show ?case by simp
next
  case (Cons lon lons)
  from Cons.prems(1) obtain rs1 where
    1: "setRec t lat lon sl i j rs k = Ok rs1" and
    2: "fillRow t lat sl i lons (Suc j) rs1 (Suc k) = Ok r"
    by (auto dest!: bindR_Ok)
  show ?case
  proof (cases m)
    case 0
    with setRec_inRange[OF 1] show ?thesis by simp
  next
    case (Suc m')
    with Cons.prems(2) have "m' < length lons" by simp
    from Cons.IH[OF 2 this] Suc show ?thesis by simp
  qed
qed

lemma fillGrid_inRange:
  "fillGrid t sl lats lons i rs k = Ok r \<Longrightarrow> a < length lats \<Longrightarrow> b < length lons
     \<Longrightarrow> inRange sl (i + a) b"
proof (induction lats arbitrary: i rs k a)
  case Nil
  then show ?case by simp
next
  case (Cons lat lats)
  from Cons.prems(1) obtain rs1 k1 where
    1: "fillRow t lat sl i lons 0 rs k = Ok (rs1, k1)" and
    2: "fillGrid t sl lats lons (Suc i) rs1 k1 = Ok r"
    by (auto dest!: bindR_Ok)
  show ?case
  proof (cases a)
    case 0
    with fillRow_inRange[OF 1 Cons.prems(3)] show ?thesis by simp
  next
    case (Suc a')
    with Cons.prems(2) have "a' < length lats" by simp
    from Cons.IH[OF 2 this Cons.prems(3)] Suc show ?thesis by simp
  qed
qed

lemma length_concat_grid:
  "length (concat (map (\<lambda>a. map (f a) [0..<n]) [0..<m])) = m * n"
  by (induction m) simp_all

lemma nth_concat_grid:
  "i < m \<Longrightarrow> j < n \<Longrightarrow> concat (map (\<lambda>a. map (f a) [0..<n]) [0..<m]) ! (i * n + j) = f i j"
proof (induction m)
  case 0
  then show ?case by simp
next
  case (Suc m)
  let ?pre = "concat (map (\<lambda>a. map (f a) [0..<n]) [0..<m])"
  have len: "length ?pre = m * n" by (rule length_concat_grid)
  show ?case
  proof (cases "i < m")
    case True
    then have "Suc i \<le> m" by simp
    then have "Suc i * n \<le> m * n" by (rule mult_le_mono1)
    with Suc.prems(2) have "i * n + j < m * n" by simp
    with Suc.IH[OF True Suc.prems(2)] len show ?thesis by (simp add: nth_append)
  next
    case False
    with Suc.prems(1) have "i = m" by simp
    with Suc.prems(2) len show ?thesis by (simp add: nth_append)
  qed
qed

lemma Scan_True_inRange:
  assumes "Scan s = Ok (True, s')" and "readSlices s = Some sl"
    and "i < length (la s)" and "j < length (lo s)"
  shows "inRange sl i j"
proof -
  from Scan_True[OF assms(1)] assms(2) obtain gu gv gt gs gc gp where
    sl: "sl = \<lparr>u10_slice = gu, v10_slice = gv, t2m_slice = gt,
                    sf_slice = gs, tcc_slice = gc, tp_slice = gp\<rparr>"
    and su: "sliceAt (u10 s) (pos s) = Some gu" "sliceAt (v10 s) (pos s) = Some gv"
        "sliceAt (t2m s) (pos s) = Some gt" "sliceAt (sf s) (pos s) = Some gs"
        "sliceAt (tcc s) (pos s) = Some gc" "sliceAt (tp s) (pos s) = Some gp"
    by (auto simp: readSlices_def)
  from assms(1) have lt: "pos s < length (ts s)"
    by (auto simp: Scan_def split: if_splits)
  have sc: "\<And>vg g k. sliceAt vg (pos s) = Some g \<Longrightarrow> scanOr s vg k = k g s"
    by (auto simp: scanOr_def scan_def sliceAt_def Let_def split: sum.splits nc_value.splits list.splits)
  from assms(1) lt obtain r where
    "fillGrid (ts s ! pos s) sl (la s) (lo s) 0
        (replicate (length (la s) * length (lo s)) zeroRecord) 0 = Ok r"
    unfolding Scan_def by (auto simp: sc su sl dest!: bindR_Ok)
  from fillGrid_inRange[OF this assms(3,4)] show ?thesis by simp
qed

text \<open>
  Claim C1. Whenever \<^verbatim>\<open>Scan\<close> returns true, the following \<^verbatim>\<open>Records\<close> call yields exactly
  \<open>length la * length lo\<close> records, all with the timestamp at the cursor, in row-major
  order (latitude outer, longitude inner): the record at index \<open>i * length lo + j\<close> carries
  latitude \<open>i\<close>, longitude \<open>j\<close> and cell \<open>(i, j)\<close> of each of the six slices read at the
  cursor; the cursor advances by one.
\<close>

theorem Scan_Records_batch:
  assumes "Scan s = Ok (True, s')"
  shows "\<exists>sl. readSlices s = Some sl \<and>
           fst (Records s') = batchOf s sl \<and>
           length (fst (Records s')) = length (la s) * length (lo s) \<and>
           (\<forall>r \<in> set (fst (Records s')). Timestamp r = ts s ! pos s) \<and>
           (\<forall>i < length (la s). \<forall>j < length (lo s).
              inRange sl i j \<and>
              fst (Records s') ! (i * length (lo s) + j) =
                gridRecord (ts s ! pos s) sl (la s ! i) (lo s ! j) i j) \<and>
           pos s < length (ts s) \<and> pos s' = pos s + 1"
proof -
  from Scan_True[OF assms] obtain sl where
    rd: "readSlices s = Some sl" and lt: "pos s < length (ts s)"
    and s': "s' = s\<lparr>recs := batchOf s sl, pos := pos s + 1\<rparr>"
    by (auto simp: readSlices_def)
  have b: "fst (Records s') = batchOf s sl" by (simp add: s' Records_def)
  have len: "length (batchOf s sl) = length (la s) * length (lo s)"
    unfolding batchOf_def by (rule length_concat_grid)
  have tsr: "\<forall>r \<in> set (batchOf s sl). Timestamp r = ts s ! pos s"
    by (auto simp: batchOf_def gridRecord_def)
  have nth: "\<forall>i < length (la s). \<forall>j < length (lo s).
              inRange sl i j \<and>
              batchOf s sl ! (i * length (lo s) + j) =
                gridRecord (ts s ! pos s) sl (la s ! i) (lo s ! j) i j"
    using Scan_True_inRange[OF assms rd] unfolding batchOf_def
    by (simp add: nth_concat_grid)
  have p: "pos s' = pos s + 1" by (simp add: s')
  from rd b len tsr nth lt p show ?thesis by (simp only:) blast
qed

theorem Scan_Records_batch_witness:
  "Scan exampleScanner = Ok (True, exampleScanner\<lparr>recs := exampleBatch, pos := 1\<rparr>) \<and>
   fst (Records (exampleScanner\<lparr>recs := exampleBatch, pos := 1\<rparr>)) = exampleBatch \<and>
   length exampleBatch = length (la exampleScanner) * length (lo exampleScanner) \<and>
   list_all (\<lambda>r. Timestamp r = - 2208988800000) exampleBatch"
proof -
  let ?s' = "exampleScanner\<lparr>recs := exampleBatch, pos := 1\<rparr>"
  have h: "Scan exampleScanner = Ok (True, ?s')" by (rule example_Scan)
  from Scan_Records_batch[OF h] have
    "length (fst (Records ?s')) = length (la exampleScanner) * length (lo exampleScanner)"
    "\<forall>r \<in> set (fst (Records ?s')). Timestamp r = ts exampleScanner ! pos exampleScanner"
    by blast+
  moreover have "fst (Records ?s') = exampleBatch" by (simp add: Records_def)
  moreover have "ts exampleScanner ! pos exampleScanner = - 2208988800000"
    by (simp add: exampleScanner_def)
  ultimately show ?thesis using h by (simp add: list_all_iff)
qed

subsection \<open>Scanner: failed steps\<close>

lemma scan_None:
  "scan s vg = Ok (None, s') \<Longrightarrow>
     \<exists>e. GetSlice vg (int (pos s)) (int (pos s) + 1) = Inl e \<and> s' = s\<lparr>err := Some e\<rparr>"
  by (auto simp: scan_def Let_def split: sum.splits nc_value.splits list.splits)

lemma scanOr_False:
  "scanOr s vg k = Ok (False, s') \<Longrightarrow>
     (\<exists>e. GetSlice vg (int (pos s)) (int (pos s) + 1) = Inl e \<and> s' = s\<lparr>err := Some e\<rparr>) \<or>
     (\<exists>g. sliceAt vg (pos s) = Some g \<and> k g s = Ok (False, s'))"
  unfolding scanOr_def
  by (auto dest!: bindR_Ok scan_Some scan_None split: option.splits)

lemma Scan_False_read:
  assumes "Scan s = Ok (False, s')" and "pos s < length (ts s)"
  shows "\<exists>vg e. vg \<in> set (getters s) \<and> GetSlice vg (int (pos s)) (int (pos s) + 1) = Inl e \<and>
           s' = s\<lparr>err := Some e\<rparr>"
  using assms unfolding Scan_def getters_def
  by (auto dest!: scanOr_False bindR_Ok)

lemma firstReadError_Inl:
  "GetSlice vg (int p) (int p + 1) = Inl e \<Longrightarrow> firstReadError (vg # vgs) p = Some e"
  by simp

lemma firstReadError_Some:
  "sliceAt vg p = Some g \<Longrightarrow> firstReadError (vg # vgs) p = firstReadError vgs p"
  by (auto simp: sliceAt_def split: sum.splits nc_value.splits list.splits)

lemma scanOr_Inl:
  "GetSlice vg (int (pos s)) (int (pos s) + 1) = Inl e \<Longrightarrow>
     scanOr s vg k = Ok (False, s\<lparr>err := Some e\<rparr>)"
  by (simp add: scanOr_def scan_def Let_def)

lemma scanOr_Some:
  "sliceAt vg (pos s) = Some g \<Longrightarrow> scanOr s vg k = k g s"
  by (auto simp: scanOr_def scan_def sliceAt_def Let_def
      split: sum.splits nc_value.splits list.splits)

lemma Scan_False_first:
  assumes "Scan s = Ok (False, s')" and "pos s < length (ts s)"
  shows "\<exists>e. firstReadError (getters s) (pos s) = Some e \<and> s' = s\<lparr>err := Some e\<rparr>"
  using assms unfolding Scan_def getters_def
  by (auto dest!: scanOr_False bindR_Ok simp: firstReadError_Inl firstReadError_Some
      simp del: firstReadError.simps(2))

lemma firstReadError_cases:
  "firstReadError (vg # vgs) p = Some e \<Longrightarrow>
     GetSlice vg (int p) (int p + 1) = Inl e \<or>
     (\<exists>g. sliceAt vg p = Some g \<and> firstReadError vgs p = Some e)"
  by (auto split: sum.splits option.splits)

lemma Scan_first_failure:
  assumes "pos s < length (ts s)" and "firstReadError (getters s) (pos s) = Some e"
  shows "Scan s = Ok (False, s\<lparr>err := Some e\<rparr>)"
proof -
  have "\<not> length (ts s) \<le> pos s" using assms(1) by simp
  with assms(2) show ?thesis
    unfolding Scan_def getters_def
    by (auto dest!: firstReadError_cases simp: scanOr_Inl scanOr_Some
        simp del: firstReadError.simps(2))
qed

text \<open>
  Claim C10. When \<^verbatim>\<open>Scan\<close> returns false although timestamps remain, a slice read has
  failed: the new state is the old one with only the error field set to the error of
  that read. The cursor and the pending batch are as before, so \<^verbatim>\<open>Records\<close> returns
  what it would have returned before the failed scan.
\<close>

theorem Scan_failed_read_keeps_state:
  assumes "Scan s = Ok (False, s')" and "pos s < length (ts s)"
  shows "\<exists>e. firstReadError (getters s) (pos s) = Some e \<and>
           s' = s\<lparr>err := Some e\<rparr> \<and> pos s' = pos s \<and> recs s' = recs s \<and>
           fst (Records s') = fst (Records s) \<and>
           snd (Records s') = (snd (Records s))\<lparr>err := Some e\<rparr>"
proof -
  from Scan_False_first[OF assms] obtain e where
    e: "firstReadError (getters s) (pos s) = Some e" and s': "s' = s\<lparr>err := Some e\<rparr>"
    by blast
  from s' have "pos s' = pos s" "recs s' = recs s"
    "fst (Records s') = fst (Records s)"
    "snd (Records s') = (snd (Records s))\<lparr>err := Some e\<rparr>"
    by (simp_all add: Records_def)
  with e s' show ?thesis by blast
qed

lemma failingScanner_Scan:
  "Scan failingScanner = Ok (False, failingScanner\<lparr>err := Some (ErrorString ''read failed'')\<rparr>)"
  by (simp add: Scan_def scanOr_def scan_def failingScanner_def failingVar_def
      exampleScanner_def exampleVar_def exampleCube_def Let_def)

theorem Scan_failed_read_keeps_state_witness:
  "Scan failingScanner = Ok (False, failingScanner\<lparr>err := Some (ErrorString ''read failed'')\<rparr>) \<and>
   pos failingScanner < length (ts failingScanner) \<and>
   pos (failingScanner\<lparr>err := Some (ErrorString ''read failed'')\<rparr>) = 1 \<and>
   fst (Records (failingScanner\<lparr>err := Some (ErrorString ''read failed'')\<rparr>)) = exampleBatch \<and>
   fst (Records failingScanner) = exampleBatch"
proof -
  let ?s' = "failingScanner\<lparr>err := Some (ErrorString ''read failed'')\<rparr>"
  have h: "Scan failingScanner = Ok (False, ?s')" by (rule failingScanner_Scan)
  have lt: "pos failingScanner < length (ts failingScanner)"
    by (simp add: failingScanner_def exampleScanner_def)
  from Scan_failed_read_keeps_state[OF h lt] have
    "pos ?s' = pos failingScanner" "fst (Records ?s') = fst (Records failingScanner)"
    by blast+
  moreover have "pos failingScanner = 1" "fst (Records failingScanner) = exampleBatch"
    by (simp_all add: failingScanner_def Records_def)
  ultimately show ?thesis using h lt by simp
qed

text \<open>
  Claim C8, as amended. \<^verbatim>\<open>Scan\<close> returns false when the scanner is exhausted and when
  a slice read fails. Only the failed read records an error, which the accessor then
  returns; at exhaustion the scanner is left as it is, its error field included.
\<close>

theorem Scan_false_and_error:
  "(length (ts s) \<le> pos s \<longrightarrow> Scan s = Ok (False, s)) \<and>
   (pos s < length (ts s) \<longrightarrow> firstReadError (getters s) (pos s) = Some e \<longrightarrow>
      Scan s = Ok (False, s\<lparr>err := Some e\<rparr>) \<and> Error (s\<lparr>err := Some e\<rparr>) = Some e)"
  using Scan_first_failure[of s e] by (simp add: Scan_def Error_def)

theorem Scan_false_and_error_witness:
  "length (ts exhaustedScanner) \<le> pos exhaustedScanner \<and>
   Scan exhaustedScanner = Ok (False, exhaustedScanner) \<and>
   pos failingScanner < length (ts failingScanner) \<and>
   firstReadError (getters failingScanner) (pos failingScanner) = Some (ErrorString ''read failed'') \<and>
   Scan failingScanner = Ok (False, failingScanner\<lparr>err := Some (ErrorString ''read failed'')\<rparr>) \<and>
   Error (failingScanner\<lparr>err := Some (ErrorString ''read failed'')\<rparr>) = Some (ErrorString ''read failed'')"
proof -
  have a: "length (ts exhaustedScanner) \<le> pos exhaustedScanner"
    by (simp add: exhaustedScanner_def exampleScanner_def)
  have b: "pos failingScanner < length (ts failingScanner)"
    by (simp add: failingScanner_def exampleScanner_def)
  have c: "firstReadError (getters failingScanner) (pos failingScanner) = Some (ErrorString ''read failed'')"
    by (simp add: getters_def failingScanner_def failingVar_def exampleScanner_def
        exampleVar_def exampleCube_def sliceAt_def)
  from Scan_false_and_error[of exhaustedScanner] a
  have "Scan exhaustedScanner = Ok (False, exhaustedScanner)" by blast
  moreover from Scan_false_and_error[of failingScanner "ErrorString ''read failed''"] b c
  have "Scan failingScanner = Ok (False, failingScanner\<lparr>err := Some (ErrorString ''read failed'')\<rparr>) \<and>
   Error (failingScanner\<lparr>err := Some (ErrorString ''read failed'')\<rparr>) = Some (ErrorString ''read failed'')"
    by blast
  ultimately show ?thesis using a b c by blast
qed

text \<open>
  Claim C8 as stated fails at exhaustion: the scanner below has its cursor at the end
  of the timestamps; \<^verbatim>\<open>Scan\<close> returns false and the error field is still empty.
\<close>

theorem Scan_exhausted_no_error_counterexample:
  "length (ts exhaustedScanner) \<le> pos exhaustedScanner \<and>
   Scan exhaustedScanner = Ok (False, exhaustedScanner) \<and>
   err exhaustedScanner = None"
  by (simp add: Scan_def exhaustedScanner_def exampleScanner_def)

subsection \<open>Scanner: construction and the scan loop\<close>

lemma hoursToMillis_exact:
  "sint (hoursToMillis h) = (sint h * 3600 + (- 2208988800)) * 1000"
proof -
  have lo: "- (2 ^ 31) \<le> sint h" using sint_ge[of h] by simp
  have hi: "sint h < 2 ^ 31" using sint_lt[of h] by simp
  have up: "sint (scast h :: 64 word) = sint h"
    by (rule sint_up_scast) (simp add: is_up)
  have a: "sint (scast h * 3600 :: 64 word) = sint h * 3600"
  proof -
    have "signed_take_bit 63 (sint h * 3600) = sint h * 3600"
      using lo hi by (intro signed_take_bit_int_eq_self) simp_all
    then show ?thesis by (simp only: sint_word_mult up) simp
  qed
  have b: "sint (scast h * 3600 + unixSecs1900 :: 64 word) = sint h * 3600 + (- 2208988800)"
  proof -
    have "signed_take_bit 63 (sint h * 3600 + (- 2208988800)) = sint h * 3600 + (- 2208988800)"
      using lo hi by (intro signed_take_bit_int_eq_self) simp_all
    moreover have "sint unixSecs1900 = - 2208988800" by (simp add: unixSecs1900_def)
    ultimately show ?thesis by (simp only: sint_word_add a) simp
  qed
  have "signed_take_bit 63 ((sint h * 3600 + (- 2208988800)) * 1000) = (sint h * 3600 + (- 2208988800)) * 1000"
    using lo hi by (intro signed_take_bit_int_eq_self) simp_all
  then show ?thesis unfolding hoursToMillis_def by (simp only: sint_word_mult b) simp
qed

lemma Scan_True_state:
  assumes "Scan s = Ok (True, s')"
  shows "\<exists>sl. s' = s\<lparr>recs := batchOf s sl, pos := pos s + 1\<rparr> \<and> pos s < length (ts s)"
  using Scan_True[OF assms] by blast

lemma NewScanner_Ok:
  assumes "NewScanner netcdfOpen filePath = Ok s"
  shows "\<exists>hours. timeHours netcdfOpen filePath = Some hours \<and> ts s = map hoursToMillis hours \<and>
           pos s = 0 \<and> recs s = [] \<and> err s = None"
  using assms unfolding NewScanner_def timeHours_def
  by (auto split: sum.splits dest!: bindR_Ok)

text \<open>
  Claim C2. Every hour count \<open>h\<close> read from the source becomes the timestamp
  \<open>(h * 3600 + (-2208988800)) * 1000\<close>: the 64-bit arithmetic of the conversion never
  wraps for a 32-bit \<open>h\<close>, so the result is the exact integer. Hour 0 gives
  \<open>-2208988800000\<close>. The timestamps of a scanner that \<^verbatim>\<open>NewScanner\<close> returns are the
  conversions of the file's hour counts, in order.
\<close>

theorem NewScanner_epoch_millis:
  "sint (hoursToMillis h) = (sint h * 3600 + (- 2208988800)) * 1000 \<and>
   sint (hoursToMillis 0) = - 2208988800000 \<and>
   (NewScanner netcdfOpen filePath = Ok s \<longrightarrow>
      (\<exists>hours. timeHours netcdfOpen filePath = Some hours \<and>
         map sint (ts s) = map (\<lambda>h. (sint h * 3600 + (- 2208988800)) * 1000) hours))"
proof -
  have "NewScanner netcdfOpen filePath = Ok s \<Longrightarrow>
      \<exists>hours. timeHours netcdfOpen filePath = Some hours \<and>
         map sint (ts s) = map (\<lambda>h. (sint h * 3600 + (- 2208988800)) * 1000) hours"
  proof -
    assume "NewScanner netcdfOpen filePath = Ok s"
    from NewScanner_Ok[OF this] obtain hours where
      h: "timeHours netcdfOpen filePath = Some hours" and t: "ts s = map hoursToMillis hours"
      by blast
    have "map sint (ts s) = map (\<lambda>h. (sint h * 3600 + (- 2208988800)) * 1000) hours"
      by (simp add: t hoursToMillis_exact)
    with h show ?thesis by blast
  qed
  moreover have "sint (hoursToMillis 0) = - 2208988800000"
    using hoursToMillis_exact[of 0] by simp
  ultimately show ?thesis using hoursToMillis_exact[of h] by blast
qed

theorem NewScanner_epoch_millis_witness:
  "NewScanner exampleOpen ''era5.nc'' = Ok exampleScanner \<and>
   timeHours exampleOpen ''era5.nc'' = Some [0, 438300] \<and>
   map sint (ts exampleScanner) = [- 2208988800000, - 631108800000]"
proof -
  have h: "NewScanner exampleOpen ''era5.nc'' = Ok exampleScanner" by (rule example_NewScanner)
  have t: "timeHours exampleOpen ''era5.nc'' = Some [0, 438300]"
    by (simp add: timeHours_def exampleOpen_def exampleGroup_def dimValues_int32_def
        getVar_def exampleDim_def)
  from NewScanner_epoch_millis[of _ exampleOpen "''era5.nc''" exampleScanner] h t
  have "map sint (ts exampleScanner) = map (\<lambda>h. (sint h * 3600 + (- 2208988800)) * 1000) [0, 438300 :: int32]"
    by auto
  then have "map sint (ts exampleScanner) = [- 2208988800000, - 631108800000]" by simp
  with h t show ?thesis by blast
qed

lemma produce_batches:
  "\<exists>r. produce s sent = Some r \<and>
     (\<forall>batches s'. r = Ok (batches, s') \<longrightarrow>
        (\<exists>new. batches = sent @ new \<and> pos s + length new \<le> max (pos s) (length (ts s)) \<and>
           (\<forall>k < length new. length (new ! k) = length (la s) * length (lo s) \<and>
              (\<forall>r \<in> set (new ! k). Timestamp r = ts s ! (pos s + k)))))"
proof (induction "length (ts s) - pos s" arbitrary: s sent rule: less_induct)
  case less
  show ?case
  proof (cases "Scan s")
    case (Panic p)
    then show ?thesis by (subst produce.simps) simp
  next
    case (Err e)
    then show ?thesis by (subst produce.simps) simp
  next
    case Unmodelled
    then show ?thesis by (subst produce.simps) simp
  next
    case (Ok r)
    obtain ok s1 where r: "r = (ok, s1)" by (cases r)
    show ?thesis
    proof (cases ok)
      case False
      with Ok r show ?thesis by (subst produce.simps) simp
    next
      case True
      with Ok r have sc: "Scan s = Ok (True, s1)" by simp
      from Scan_True_state[OF sc] obtain sl where
        s1: "s1 = s\<lparr>recs := batchOf s sl, pos := pos s + 1\<rparr>" and lt: "pos s < length (ts s)"
        by blast
      let ?b = "batchOf s sl"
      let ?s2 = "s1\<lparr>recs := []\<rparr>"
      have un: "produce s sent = produce ?s2 (sent @ [?b])"
        by (subst produce.simps) (simp add: sc Records_def s1)
      have m: "length (ts ?s2) - pos ?s2 < length (ts s) - pos s"
        using lt by (simp add: s1)
      from less[OF m, of "sent @ [?b]"] obtain r2 where
        p2: "produce ?s2 (sent @ [?b]) = Some r2" and
        b2: "\<forall>batches s'. r2 = Ok (batches, s') \<longrightarrow>
        (\<exists>new. batches = (sent @ [?b]) @ new \<and> pos ?s2 + length new \<le> max (pos ?s2) (length (ts ?s2)) \<and>
           (\<forall>k < length new. length (new ! k) = length (la ?s2) * length (lo ?s2) \<and>
              (\<forall>r \<in> set (new ! k). Timestamp r = ts ?s2 ! (pos ?s2 + k))))"
        by blast
      have lenb: "length ?b = length (la s) * length (lo s)"
        unfolding batchOf_def by (rule length_concat_grid)
      have tsb: "\<forall>r \<in> set ?b. Timestamp r = ts s ! pos s"
        by (auto simp: batchOf_def gridRecord_def)
      have "\<exists>new. batches = sent @ new \<and> pos s + length new \<le> max (pos s) (length (ts s)) \<and>
           (\<forall>k < length new. length (new ! k) = length (la s) * length (lo s) \<and>
              (\<forall>r \<in> set (new ! k). Timestamp r = ts s ! (pos s + k)))"
        if eq: "r2 = Ok (batches, s')" for batches s'
      proof -
        from b2 eq obtain new where
          n1: "batches = (sent @ [?b]) @ new" and
          n2: "pos ?s2 + length new \<le> max (pos ?s2) (length (ts ?s2))" and
          n3: "\<forall>k < length new. length (new ! k) = length (la ?s2) * length (lo ?s2) \<and>
              (\<forall>r \<in> set (new ! k). Timestamp r = ts ?s2 ! (pos ?s2 + k))"
          by blast
        have "batches = sent @ (?b # new)" using n1 by simp
        moreover have "pos s + length (?b # new) \<le> max (pos s) (length (ts s))"
          using n2 lt by (simp add: s1)
        moreover have "\<forall>k < length (?b # new). length ((?b # new) ! k) = length (la s) * length (lo s) \<and>
              (\<forall>r \<in> set ((?b # new) ! k). Timestamp r = ts s ! (pos s + k))"
        proof (intro allI impI)
          fix k assume k: "k < length (?b # new)"
          show "length ((?b # new) ! k) = length (la s) * length (lo s) \<and>
              (\<forall>r \<in> set ((?b # new) ! k). Timestamp r = ts s ! (pos s + k))"
          proof (cases k)
            case 0
            with lenb tsb show ?thesis by simp
          next
            case (Suc k')
            with k have "k' < length new" by simp
            with n3 Suc show ?thesis by (simp add: s1)
          qed
        qed
        ultimately show ?thesis by blast
      qed
      with p2 un show ?thesis by auto
    qed
  qed
qed

lemma cell_in: "i < length g \<Longrightarrow> j < length (g ! i) \<Longrightarrow> cell g i j = Ok (g ! i ! j)"
  by (simp add: cell_def index_def)

lemma setRec_succeeds:
  "k < length rs \<Longrightarrow> inRange sl i j \<Longrightarrow>
     setRec t lat lon sl i j rs k = Ok (rs[k := gridRecord t sl lat lon i j])"
  by (simp add: setRec_def inRange_def cell_in gridRecord_def Record_update_all)

lemma fillRow_succeeds:
  "k + length lons \<le> length rs \<Longrightarrow> (\<forall>m < length lons. inRange sl i (j + m)) \<Longrightarrow>
     \<exists>r. fillRow t lat sl i lons j rs k = Ok r"
proof (induction lons arbitrary: j rs k)
  case Nil
  show ?case by simp
next
  case (Cons lon lons)
  from Cons.prems(1) have k: "k < length rs" by simp
  from Cons.prems(2) have "inRange sl i (j + 0)" by blast
  then have 0: "inRange sl i j" by simp
  let ?rs1 = "rs[k := gridRecord t sl lat lon i j]"
  have 1: "setRec t lat lon sl i j rs k = Ok ?rs1" using k 0 by (rule setRec_succeeds)
  have len: "Suc k + length lons \<le> length ?rs1" using Cons.prems(1) by simp
  have rng: "\<forall>m < length lons. inRange sl i (Suc j + m)"
  proof (intro allI impI)
    fix m assume "m < length lons"
    then have "Suc m < length (lon # lons)" by simp
    with Cons.prems(2) have "inRange sl i (j + Suc m)" by blast
    then show "inRange sl i (Suc j + m)" by simp
  qed
  from Cons.IH[OF len rng] show ?case by (simp add: 1)
qed

lemma fillGrid_succeeds:
  "k + length lats * length lons \<le> length rs \<Longrightarrow>
   (\<forall>a < length lats. \<forall>b < length lons. inRange sl (i + a) b) \<Longrightarrow>
     \<exists>r. fillGrid t sl lats lons i rs k = Ok r"
proof (induction lats arbitrary: i rs k)
  case Nil
  show ?case by simp
next
  case (Cons lat lats)
  have le: "k + length lons \<le> length rs" using Cons.prems(1) by simp
  have row: "\<forall>m < length lons. inRange sl i (0 + m)"
  proof (intro allI impI)
    fix m assume m: "m < length lons"
    have "0 < length (lat # lats)" by simp
    with Cons.prems(2) m have "inRange sl (i + 0) m" by blast
    then show "inRange sl i (0 + m)" by simp
  qed
  from fillRow_succeeds[OF le row] obtain r1 where
    1: "fillRow t lat sl i lons 0 rs k = Ok r1" by blast
  obtain rs1 k1 where r1: "r1 = (rs1, k1)" by (cases r1)
  have kr: "k \<le> length rs" using le by simp
  from fillRow_Ok[OF 1[unfolded r1] kr] have k1: "k1 = k + length lons"
    and k1le: "k1 \<le> length rs"
    and rs1: "rs1 = take k rs @
        map (\<lambda>m. gridRecord t sl lat (lons ! m) i (0 + m)) [0..<length lons] @ drop k1 rs"
    by blast+
  have len1: "length rs1 = length rs" using k1le kr by (simp add: rs1 k1)
  have le2: "k1 + length lats * length lons \<le> length rs1"
    using Cons.prems(1) by (simp add: len1 k1)
  have rng: "\<forall>a < length lats. \<forall>b < length lons. inRange sl (Suc i + a) b"
  proof (intro allI impI)
    fix a b assume a: "a < length lats" and b: "b < length lons"
    from a have "Suc a < length (lat # lats)" by simp
    with Cons.prems(2) b have "inRange sl (i + Suc a) b" by blast
    then show "inRange sl (Suc i + a) b" by simp
  qed
  from Cons.IH[OF le2 rng] show ?case by (simp add: 1 r1)
qed

lemma wellFormedAt_pos:
  assumes "wellFormedAt s (pos s)"
  shows "\<exists>sl. readSlices s = Some sl \<and>
           (\<forall>i < length (la s). \<forall>j < length (lo s). inRange sl i j)"
proof -
  have "s\<lparr>pos := pos s\<rparr> = s" by simp
  with assms show ?thesis
    by (auto simp: wellFormedAt_def list_all_iff split: option.splits)
qed

lemma Scan_succeeds:
  assumes "pos s < length (ts s)" and "wellFormedAt s (pos s)"
  shows "\<exists>sl. Scan s = Ok (True, s\<lparr>recs := batchOf s sl, pos := pos s + 1\<rparr>)"
proof -
  from wellFormedAt_pos[OF assms(2)] obtain sl where
    rd: "readSlices s = Some sl"
    and rng: "\<forall>i < length (la s). \<forall>j < length (lo s). inRange sl i j"
    by blast
  from rd obtain gu gv gt gs gc gp where
    sl: "sl = \<lparr>u10_slice = gu, v10_slice = gv, t2m_slice = gt,
                sf_slice = gs, tcc_slice = gc, tp_slice = gp\<rparr>"
    and su: "sliceAt (u10 s) (pos s) = Some gu" "sliceAt (v10 s) (pos s) = Some gv"
        "sliceAt (t2m s) (pos s) = Some gt" "sliceAt (sf s) (pos s) = Some gs"
        "sliceAt (tcc s) (pos s) = Some gc" "sliceAt (tp s) (pos s) = Some gp"
    by (auto simp: readSlices_def split: option.splits)
  let ?z = "replicate (length (la s) * length (lo s)) zeroRecord"
  have "0 + length (la s) * length (lo s) \<le> length ?z" by simp
  moreover have "\<forall>a < length (la s). \<forall>b < length (lo s). inRange sl (0 + a) b"
    using rng by simp
  ultimately obtain r where
    fg: "fillGrid (ts s ! pos s) sl (la s) (lo s) 0 ?z 0 = Ok r"
    using fillGrid_succeeds by blast
  obtain rs k where r: "r = (rs, k)" by (cases r)
  have "\<not> length (ts s) \<le> pos s" using assms(1) by simp
  then have "Scan s = Ok (True, s\<lparr>recs := rs, pos := pos s + 1\<rparr>)"
    using fg[unfolded sl r] by (simp add: Scan_def scanOr_Some su)
  from Scan_True_state[OF this] this show ?thesis by auto
qed

lemma wellFormedAt_step [simp]:
  "wellFormedAt (s\<lparr>pos := q, recs := c\<rparr>) p = wellFormedAt s p"
  "wellFormedAt (s\<lparr>pos := q\<rparr>) p = wellFormedAt s p"
  "wellFormedAt (s\<lparr>recs := c\<rparr>) p = wellFormedAt s p"
  by (simp_all add: wellFormedAt_def readSlices_def cong: option.case_cong)

lemma produce_complete:
  assumes "\<forall>p. pos s \<le> p \<longrightarrow> p < length (ts s) \<longrightarrow> wellFormedAt s p"
  shows "\<exists>batches s'. produce s sent = Some (Ok (batches, s')) \<and>
           length batches = length sent + (length (ts s) - pos s) \<and> err s' = err s"
  using assms
proof (induction "length (ts s) - pos s" arbitrary: s sent rule: less_induct)
  case less
  show ?case
  proof (cases "pos s < length (ts s)")
    case False
    then have "Scan s = Ok (False, s)" by (simp add: Scan_def)
    then have "produce s sent = Some (Ok (sent, s))" by (subst produce.simps) simp
    with False show ?thesis by simp
  next
    case True
    from less.prems True have "wellFormedAt s (pos s)" by simp
    from Scan_succeeds[OF True this] obtain sl where
      sc: "Scan s = Ok (True, s\<lparr>recs := batchOf s sl, pos := pos s + 1\<rparr>)" by blast
    let ?b = "batchOf s sl"
    let ?s2 = "s\<lparr>recs := ?b, pos := pos s + 1\<rparr>\<lparr>recs := []\<rparr>"
    have un: "produce s sent = produce ?s2 (sent @ [?b])"
      by (subst produce.simps) (simp add: sc Records_def)
    have m: "length (ts ?s2) - pos ?s2 < length (ts s) - pos s" using True by simp
    have wf: "\<forall>p. pos ?s2 \<le> p \<longrightarrow> p < length (ts ?s2) \<longrightarrow> wellFormedAt ?s2 p"
      using less.prems by simp
    from less.hyps[OF m wf, of "sent @ [?b]"] obtain batches s' where
      "produce ?s2 (sent @ [?b]) = Some (Ok (batches, s'))"
      "length batches = length (sent @ [?b]) + (length (ts ?s2) - pos ?s2)"
      "err s' = err ?s2"
      by blast
    with un True show ?thesis by simp
  qed
qed

lemma produce_outcome:
  assumes "produce s sent = Some (Ok (batches, s'))"
  shows "pos s \<le> pos s' \<and> length batches = length sent + (pos s' - pos s) \<and>
         ((length (ts s) \<le> pos s' \<and> err s' = err s) \<or>
          (pos s' < length (ts s) \<and>
           (\<exists>e. firstReadError (getters s) (pos s') = Some e \<and> err s' = Some e)))"
  using assms
proof (induction "length (ts s) - pos s" arbitrary: s sent rule: less_induct)
  case less
  from less.prems obtain ok s1 where sc: "Scan s = Ok (ok, s1)"
    by (subst (asm) produce.simps) (auto split: result.splits)
  show ?case
  proof (cases ok)
    case False
    with sc have scF: "Scan s = Ok (False, s1)" by simp
    from less.prems have e: "batches = sent \<and> s' = s1"
      by (subst (asm) produce.simps) (simp add: scF)
    show ?thesis
    proof (cases "pos s < length (ts s)")
      case True
      from Scan_False_first[OF scF True] obtain er where
        "firstReadError (getters s) (pos s) = Some er" "s1 = s\<lparr>err := Some er\<rparr>"
        by blast
      with True e show ?thesis by simp
    next
      case nlt: False
      with scF have "s1 = s" by (simp add: Scan_def)
      with nlt e show ?thesis by simp
    qed
  next
    case True
    with sc have scT: "Scan s = Ok (True, s1)" by simp
    from Scan_True_state[OF scT] obtain sl where
      s1: "s1 = s\<lparr>recs := batchOf s sl, pos := pos s + 1\<rparr>" and lt: "pos s < length (ts s)"
      by blast
    let ?b = "batchOf s sl"
    let ?s2 = "s1\<lparr>recs := []\<rparr>"
    have un: "produce s sent = produce ?s2 (sent @ [?b])"
      by (subst produce.simps) (simp add: scT Records_def s1)
    have m: "length (ts ?s2) - pos ?s2 < length (ts s) - pos s"
      using lt by (simp add: s1)
    from less.prems un have p2: "produce ?s2 (sent @ [?b]) = Some (Ok (batches, s'))" by simp
    from less.hyps[OF m p2] show ?thesis
      by (simp add: s1 getters_def) linarith
  qed
qed

lemma NewScanner_limit_Ok:
  assumes "NewScanner_limit netcdfOpen filePath limitHours = Ok s"
  shows "\<exists>s0. NewScanner netcdfOpen filePath = Ok s0 \<and>
           s = (if limitHours = 0 then s0
                else s0\<lparr>ts := take (min limitHours (length (ts s0))) (ts s0)\<rparr>)"
  using assms unfolding NewScanner_limit_def by (auto dest!: bindR_Ok)

text \<open>
  Claim C9. With a limit configured (a positive \<^verbatim>\<open>limitHours\<close>) the scanner holds the
  first \<open>min limit (length timestamps)\<close> timestamps of the file, and with no limit
  (zero) all of them. \<^verbatim>\<open>TotalRecCount\<close> is computed from the timestamps kept. The
  scan loop of \<^verbatim>\<open>main\<close> ends. When it ends normally, batch \<open>k\<close> is a full grid carrying
  the file's \<open>k\<close>-th timestamp, and either it has emitted one batch for every timestamp
  kept and no error is recorded, or it has stopped at the first timestamp with a failing
  read, whose error is recorded. On a source whose reads succeed with slices of the
  grid's shape the loop ends normally with exactly \<open>min limit (length timestamps)\<close>
  batches, and with all \<open>length timestamps\<close> batches when no limit is configured.
\<close>

theorem NewScanner_limit_iterates:
  assumes "NewScanner_limit netcdfOpen filePath limitHours = Ok s"
  shows "\<exists>s0. NewScanner netcdfOpen filePath = Ok s0 \<and>
           (0 < limitHours \<longrightarrow>
              ts s = take (min limitHours (length (ts s0))) (ts s0) \<and>
              length (ts s) = min limitHours (length (ts s0))) \<and>
           (limitHours = 0 \<longrightarrow> ts s = ts s0) \<and>
           la s = la s0 \<and> lo s = lo s0 \<and>
           TotalRecCount s = of_nat (length (ts s) * length (la s0) * length (lo s0) * 6) \<and>
           (\<exists>r. produce s [] = Some r \<and>
              (\<forall>batches s'. r = Ok (batches, s') \<longrightarrow>
                 length batches \<le> length (ts s) \<and>
                 (\<forall>k < length batches.
                    length (batches ! k) = length (la s0) * length (lo s0) \<and>
                    (\<forall>x \<in> set (batches ! k). Timestamp x = ts s0 ! k)) \<and>
                 ((length batches = length (ts s) \<and> err s' = None) \<or>
                  (length batches < length (ts s) \<and>
                   (\<exists>e. firstReadError (getters s) (length batches) = Some e \<and>
                        err s' = Some e)))) \<and>
              (wellFormed s \<longrightarrow>
                 (\<exists>batches s'. r = Ok (batches, s') \<and>
                    length batches =
                      (if limitHours = 0 then length (ts s0)
                       else min limitHours (length (ts s0))))))"
proof -
  from NewScanner_limit_Ok[OF assms] obtain s0 where
    s0: "NewScanner netcdfOpen filePath = Ok s0" and
    s: "s = (if limitHours = 0 then s0
             else s0\<lparr>ts := take (min limitHours (length (ts s0))) (ts s0)\<rparr>)"
    by blast
  from NewScanner_Ok[OF s0] have p0: "pos s0 = 0" and e0: "err s0 = None" by blast+
  have p: "pos s = 0" using p0 by (simp add: s)
  have e: "err s = None" using e0 by (simp add: s)
  have t1: "0 < limitHours \<longrightarrow>
              ts s = take (min limitHours (length (ts s0))) (ts s0) \<and>
              length (ts s) = min limitHours (length (ts s0))"
    by (simp add: s)
  have t2: "limitHours = 0 \<longrightarrow> ts s = ts s0" by (simp add: s)
  have l: "la s = la s0" "lo s = lo s0" by (simp_all add: s)
  have c: "TotalRecCount s = of_nat (length (ts s) * length (la s0) * length (lo s0) * 6)"
    by (simp add: TotalRecCount_def l)
  have n: "length (ts s) = (if limitHours = 0 then length (ts s0)
                            else min limitHours (length (ts s0)))"
    by (simp add: s)
  have nth: "ts s ! k = ts s0 ! k" if "k < length (ts s)" for k
    using that by (simp add: s split: if_splits)
  from produce_batches[of s "[]"] obtain r where
    r: "produce s [] = Some r" and
    b: "\<forall>batches s'. r = Ok (batches, s') \<longrightarrow>
        (\<exists>new. batches = [] @ new \<and> pos s + length new \<le> max (pos s) (length (ts s)) \<and>
           (\<forall>k < length new. length (new ! k) = length (la s) * length (lo s) \<and>
              (\<forall>r \<in> set (new ! k). Timestamp r = ts s ! (pos s + k))))"
    by blast
  have A: "length batches \<le> length (ts s) \<and>
        (\<forall>k < length batches.
           length (batches ! k) = length (la s0) * length (lo s0) \<and>
           (\<forall>x \<in> set (batches ! k). Timestamp x = ts s0 ! k)) \<and>
        ((length batches = length (ts s) \<and> err s' = None) \<or>
         (length batches < length (ts s) \<and>
          (\<exists>e. firstReadError (getters s) (length batches) = Some e \<and> err s' = Some e)))"
    if eq: "r = Ok (batches, s')" for batches s'
  proof -
    from b eq have le: "length batches \<le> length (ts s)"
      and tk: "\<forall>k < length batches. length (batches ! k) = length (la s) * length (lo s) \<and>
                 (\<forall>r \<in> set (batches ! k). Timestamp r = ts s ! k)"
      by (auto simp: p)
    from tk le nth l have 1: "\<forall>k < length batches.
           length (batches ! k) = length (la s0) * length (lo s0) \<and>
           (\<forall>x \<in> set (batches ! k). Timestamp x = ts s0 ! k)"
      by auto
    from r eq have "produce s [] = Some (Ok (batches, s'))" by simp
    from produce_outcome[OF this] have
      len: "length batches = pos s'" and
      alt: "(length (ts s) \<le> pos s' \<and> err s' = err s) \<or>
          (pos s' < length (ts s) \<and>
           (\<exists>e. firstReadError (getters s) (pos s') = Some e \<and> err s' = Some e))"
      by (simp_all add: p)
    from alt le have 2: "(length batches = length (ts s) \<and> err s' = None) \<or>
         (length batches < length (ts s) \<and>
          (\<exists>e. firstReadError (getters s) (length batches) = Some e \<and> err s' = Some e))"
      unfolding len e by auto
    from le 1 2 show ?thesis by blast
  qed
  have B: "\<exists>batches s'. r = Ok (batches, s') \<and>
                    length batches =
                      (if limitHours = 0 then length (ts s0)
                       else min limitHours (length (ts s0)))"
    if wf: "wellFormed s"
  proof -
    from wf have "\<forall>q. pos s \<le> q \<longrightarrow> q < length (ts s) \<longrightarrow> wellFormedAt s q"
      by (simp add: wellFormed_def list_all_iff)
    from produce_complete[OF this, of "[]"] r obtain batches s' where
      "r = Ok (batches, s')" "length batches = length (ts s)"
      by (auto simp: p)
    with n show ?thesis by auto
  qed
  from r A B have "\<exists>r. produce s [] = Some r \<and>
              (\<forall>batches s'. r = Ok (batches, s') \<longrightarrow>
                 length batches \<le> length (ts s) \<and>
                 (\<forall>k < length batches.
                    length (batches ! k) = length (la s0) * length (lo s0) \<and>
                    (\<forall>x \<in> set (batches ! k). Timestamp x = ts s0 ! k)) \<and>
                 ((length batches = length (ts s) \<and> err s' = None) \<or>
                  (length batches < length (ts s) \<and>
                   (\<exists>e. firstReadError (getters s) (length batches) = Some e \<and>
                        err s' = Some e)))) \<and>
              (wellFormed s \<longrightarrow>
                 (\<exists>batches s'. r = Ok (batches, s') \<and>
                    length batches =
                      (if limitHours = 0 then length (ts s0)
                       else min limitHours (length (ts s0)))))"
    by blast
  with s0 t1 t2 l c show ?thesis by blast
qed

lemma example_NewScanner_limit:
  "NewScanner_limit exampleOpen ''era5.nc'' 1 = Ok limitedScanner"
  by (simp add: NewScanner_limit_def example_NewScanner limitedScanner_def exampleScanner_def)

lemma example_NewScanner_unlimited:
  "NewScanner_limit exampleOpen ''era5.nc'' 0 = Ok exampleScanner"
  by (simp add: NewScanner_limit_def example_NewScanner)

lemma example_wellFormed: "wellFormed exampleScanner" "wellFormed limitedScanner"
  by (simp_all add: wellFormed_def wellFormedAt_def readSlices_def sliceAt_def inRange_def
      limitedScanner_def exampleScanner_def exampleVar_def exampleCube_def)

lemma limitedScanner_Scan:
  "Scan limitedScanner = Ok (True, limitedScanner\<lparr>recs := exampleBatch, pos := 1\<rparr>)"
  by (simp add: Scan_def scanOr_def scan_def limitedScanner_def exampleScanner_def
        exampleVar_def exampleCube_def setRec_def cell_def index_def zeroRecord_def
        exampleBatch_def Let_def)

lemma limitedScanner_produce:
  "produce limitedScanner [] =
     Some (Ok ([exampleBatch], limitedScanner\<lparr>pos := 1, recs := []\<rparr>))"
proof -
  let ?s2 = "limitedScanner\<lparr>pos := 1, recs := []\<rparr>"
  have "Scan ?s2 = Ok (False, ?s2)"
    by (simp add: Scan_def limitedScanner_def exampleScanner_def)
  then have "produce ?s2 [exampleBatch] = Some (Ok ([exampleBatch], ?s2))"
    by (subst produce.simps) simp
  then show ?thesis
    by (subst produce.simps) (simp add: limitedScanner_Scan Records_def)
qed

theorem NewScanner_limit_iterates_witness:
  "NewScanner_limit exampleOpen ''era5.nc'' 1 = Ok limitedScanner \<and>
   ts limitedScanner = take (min 1 (length (ts exampleScanner))) (ts exampleScanner) \<and>
   length (ts limitedScanner) = 1 \<and>
   TotalRecCount limitedScanner = 36 \<and>
   wellFormed limitedScanner \<and>
   produce limitedScanner [] =
     Some (Ok ([exampleBatch], limitedScanner\<lparr>pos := 1, recs := []\<rparr>)) \<and>
   NewScanner_limit exampleOpen ''era5.nc'' 0 = Ok exampleScanner \<and>
   wellFormed exampleScanner \<and>
   (\<exists>batches s'. produce exampleScanner [] = Some (Ok (batches, s')) \<and> length batches = 2)"
proof -
  have h: "NewScanner_limit exampleOpen ''era5.nc'' 1 = Ok limitedScanner"
    by (rule example_NewScanner_limit)
  from NewScanner_limit_iterates[OF h] obtain s0 where
    s0: "NewScanner exampleOpen ''era5.nc'' = Ok s0" and
    t: "ts limitedScanner = take (min 1 (length (ts s0))) (ts s0)"
       "length (ts limitedScanner) = min 1 (length (ts s0))" and
    c: "TotalRecCount limitedScanner = of_nat (length (ts limitedScanner) * length (la s0) * length (lo s0) * 6)"
    by auto
  from s0 have e: "s0 = exampleScanner" by (simp add: example_NewScanner)
  have len: "length (ts exampleScanner) = 2" "length (la exampleScanner) = 2"
    "length (lo exampleScanner) = 3"
    by (simp_all add: exampleScanner_def)
  have h0: "NewScanner_limit exampleOpen ''era5.nc'' 0 = Ok exampleScanner"
    by (rule example_NewScanner_unlimited)
  from NewScanner_limit_iterates[OF h0] example_wellFormed(1)
  obtain s1 batches s' where
    "NewScanner exampleOpen ''era5.nc'' = Ok s1"
    "produce exampleScanner [] = Some (Ok (batches, s'))" "length batches = length (ts s1)"
    by auto
  then have u: "\<exists>batches s'. produce exampleScanner [] = Some (Ok (batches, s')) \<and>
      length batches = 2"
    using len(1) by (auto simp: example_NewScanner)
  from t c e h len h0 u show ?thesis
    by (simp add: example_wellFormed limitedScanner_produce)
qed

subsection \<open>The formatting library\<close>

lemma emit_Ok [simp]: "emit (Ok s) (Ok t) = Ok (s @ t)"
  by (simp add: emit_def)

lemma digitChar_cases:
  assumes "d < 10"
  shows "digitChar d \<in> set ''0123456789'' \<and> of_char (digitChar d) = 48 + d"
proof -
  from assms have "d \<in> {0, 1, 2, 3, 4, 5, 6, 7, 8, 9}" by auto
  then show ?thesis by (auto simp: digitChar_def)
qed

lemma decimal_isDigits: "isDigits (decimal n)"
proof (induction n rule: decimal.induct)
  case (1 n)
  show ?case
  proof (cases "n < 10")
    case True
    then show ?thesis using digitChar_cases[of n]
      by (subst decimal.simps) (simp add: isDigits_def)
  next
    case False
    with 1 have "isDigits (decimal (n div 10))" by simp
    moreover have "digitChar (n mod 10) \<in> set ''0123456789''"
      using digitChar_cases[of "n mod 10"] by simp
    ultimately show ?thesis using False
      by (subst decimal.simps) (simp add: isDigits_def)
  qed
qed

lemma decimalValue_decimal: "decimalValue (decimal n) = n"
proof (induction n rule: decimal.induct)
  case (1 n)
  show ?case
  proof (cases "n < 10")
    case True
    then show ?thesis using digitChar_cases[of n]
      by (subst decimal.simps) (simp add: decimalValue_def)
  next
    case False
    with 1 have "decimalValue (decimal (n div 10)) = n div 10" by simp
    moreover have "of_char (digitChar (n mod 10)) = 48 + n mod 10"
      using digitChar_cases[of "n mod 10"] by simp
    ultimately show ?thesis using False
      by (subst decimal.simps) (simp add: decimalValue_def)
  qed
qed

lemma roundHalfEven_near:
  assumes "0 < d"
  shows "2 * \<bar>int n - int (roundHalfEven n d) * int d\<bar> \<le> int d"
proof -
  let ?q = "n div d" and ?r = "n mod d"
  have n: "int n = int ?q * int d + int ?r"
    by (metis div_mult_mod_eq of_nat_add of_nat_mult)
  have r: "int ?r < int d" using assms by simp
  have r0: "0 \<le> int ?r" by simp
  show ?thesis
  proof (cases "d < 2 * ?r \<or> (2 * ?r = d \<and> odd ?q)")
    case True
    then have "roundHalfEven n d = ?q + 1" by (simp add: roundHalfEven_def Let_def)
    then have e: "int n - int (roundHalfEven n d) * int d = int ?r - int d"
      by (subst n) (simp add: algebra_simps)
    from True have "int d \<le> 2 * int ?r" by linarith
    with r show ?thesis unfolding e by (auto simp: abs_if)
  next
    case False
    then have "roundHalfEven n d = ?q" by (simp add: roundHalfEven_def Let_def)
    then have e: "int n - int (roundHalfEven n d) * int d = int ?r"
      by (subst n) simp
    from False have "2 * int ?r \<le> int d" by linarith
    with r0 show ?thesis unfolding e by (auto simp: abs_if)
  qed
qed

lemma hundredths_real:
  fixes m q d :: real
  assumes "0 < d" and "2 * \<bar>m * 100 - q * d\<bar> \<le> d"
  shows "\<bar>q / 100 - m / d\<bar> \<le> 1 / 200"
proof -
  have "q / 100 - m / d = (q * d - m * 100) / (100 * d)"
    using assms(1) by (simp add: field_simps)
  then have "\<bar>q / 100 - m / d\<bar> = \<bar>m * 100 - q * d\<bar> / (100 * d)"
    using assms(1) by (simp add: abs_minus_commute)
  also have "\<dots> \<le> (d / 2) / (100 * d)"
    using assms by (intro divide_right_mono) simp_all
  also have "\<dots> = 1 / 200" using assms(1) by simp
  finally show ?thesis .
qed

lemma f32_hundredths_near:
  "\<bar>real (f32_hundredths w) / 100 - f32_abs w\<bar> \<le> 1 / 200"
proof (cases "0 \<le> f32_pow w")
  case True
  then show ?thesis by (simp add: f32_hundredths_def f32_abs_def)
next
  case False
  let ?d = "2 ^ nat (- f32_pow w) :: nat"
  let ?n = "f32_mant w * 100"
  let ?q = "roundHalfEven ?n ?d"
  have d: "0 < ?d" by simp
  from roundHalfEven_near[OF d, of ?n]
  have "2 * \<bar>int ?n - int ?q * int ?d\<bar> \<le> int ?d" .
  then have "real_of_int (2 * \<bar>int ?n - int ?q * int ?d\<bar>) \<le> real_of_int (int ?d)"
    by (rule of_int_le_iff[THEN iffD2])
  then have "2 * \<bar>real (f32_mant w) * 100 - real ?q * real ?d\<bar> \<le> real ?d"
    by simp
  moreover have "0 < real ?d" by simp
  ultimately have "\<bar>real ?q / 100 - real (f32_mant w) / real ?d\<bar> \<le> 1 / 200"
    by (rule hundredths_real[rotated])
  then show ?thesis using False by (simp add: f32_hundredths_def f32_abs_def)
qed

subsection \<open>Encoders and client construction\<close>

lemma isDigits_not_minus: "isDigits s \<Longrightarrow> take 1 s \<noteq> ''-''"
  by (cases s) (auto simp: isDigits_def)

lemma isFixed2_digits:
  assumes "isDigits ip" and "isDigits [a, b]"
  shows "isFixed2 (ip @ ''.'' @ [a, b])" and "isFixed2 (''-'' @ ip @ ''.'' @ [a, b])"
proof -
  let ?t = "ip @ ''.'' @ [a, b]"
  have 1: "take 1 ?t \<noteq> ''-''"
    using isDigits_not_minus[OF assms(1)] assms(1) by (cases ip) (auto simp: isDigits_def)
  have 2: "length ?t - 3 = length ip" "length ?t - 2 = Suc (length ip)" by simp_all
  have 3: "4 \<le> length ?t" using assms(1) by (cases ip) (auto simp: isDigits_def)
  have t: "4 \<le> length ?t \<and> isDigits (take (length ?t - 3) ?t) \<and>
         take 1 (drop (length ?t - 3) ?t) = ''.'' \<and> isDigits (drop (length ?t - 2) ?t)"
    unfolding 2 using 3 assms by simp
  show "isFixed2 ?t" unfolding isFixed2_def Let_def using 1 t by simp
  have "(if take 1 (''-'' @ ?t) = ''-'' then drop 1 (''-'' @ ?t) else ''-'' @ ?t) = ?t" by simp
  then show "isFixed2 (''-'' @ ?t)" unfolding isFixed2_def Let_def using t by simp
qed

lemma fmt_f2_isFixed2:
  assumes "f32_exp w \<noteq> 255"
  shows "isFixed2 (fmt_f2 w)"
proof -
  let ?q = "f32_hundredths w"
  have a: "isDigits (decimal (?q div 100))" by (rule decimal_isDigits)
  have b: "isDigits [digitChar (?q div 10 mod 10), digitChar (?q mod 10)]"
    using digitChar_cases[of "?q div 10 mod 10"] digitChar_cases[of "?q mod 10"]
    by (simp add: isDigits_def)
  show ?thesis
    using isFixed2_digits[OF a b] assms by (simp add: fmt_f2_def Let_def)
qed

lemma fmt_d_isSignedDecimal: "isSignedDecimal (fmt_d x)"
proof (cases "x < 0")
  case True
  then show ?thesis by (simp add: fmt_d_def isSignedDecimal_def decimal_isDigits)
next
  case False
  then show ?thesis
    using isDigits_not_minus[OF decimal_isDigits[of "nat x"]]
    by (simp add: fmt_d_def isSignedDecimal_def decimal_isDigits)
qed

lemma recToInfluxDB_eq:
  "recToInfluxDB sb r p =
   Ok (sb @ p @ '',la='' @ fmt_f2 (Latitude r) @ '',lo='' @ fmt_f2 (Longitude r) @
     '' u10='' @ fmt_d (sint (ZonalWind10M r)) @ '',v10='' @ fmt_d (sint (MeridionalWind10M r)) @
     '',t2m='' @ fmt_d (sint (Temperature2M r)) @ '',sf='' @ fmt_d (sint (Snowfall r)) @
     '',tcc='' @ fmt_d (sint (TotalCloudCover r)) @ '',tp='' @ fmt_d (sint (TotalPrecipitation r)) @
     '' '' @ fmt_d (sint (Timestamp r)))"
  by (simp add: recToInfluxDB_def Sprintf_def influxDBFmt_def verb_s_def verb_d_def verb_f2_def)

lemma recToInfluxDB_era5_eq: "recToInfluxDB_era5 sb r = recToInfluxDB sb r ''era5''"
  by (simp add: recToInfluxDB_era5_def influxDBFmt_era5_def recToInfluxDB_eq Sprintf_def
      verb_d_def verb_f2_def)

lemma recToCSV_eq:
  "recToCSV sb r p =
   Ok (sb @ fmt_d (sint (Timestamp r)) @ '','' @ fmt_f2 (Latitude r) @ '','' @ fmt_f2 (Longitude r) @
     '','' @ fmt_d (sint (ZonalWind10M r)) @ '','' @ fmt_d (sint (MeridionalWind10M r)) @
     '','' @ fmt_d (sint (Temperature2M r)) @ '','' @ fmt_d (sint (Snowfall r)) @
     '','' @ fmt_d (sint (TotalCloudCover r)) @ '','' @ fmt_d (sint (TotalPrecipitation r)))"
  by (simp add: recToCSV_def Sprintf_def csvFmt_def verb_s_def verb_d_def verb_f2_def)

lemma csvAPIParams_eq:
  "csvAPIParams p =
   Ok [(''format'',
        ''1:time:unix_ms,2:label:la,3:label:lo,4:metric:'' @ p @ ''_u10,5:metric:'' @ p @
        ''_v10,6:metric:'' @ p @ ''_t2m,7:metric:'' @ p @ ''_sf,8:metric:'' @ p @
        ''_tcc,9:metric:'' @ p @ ''_tp'')]"
  by (simp add: csvAPIParams_def Sprintf_def verb_s_def)

lemmas f32_eval = fmt_f2_def f32_exp_def f32_frac_def f32_sign_def f32_hundredths_def
  f32_pow_def f32_mant_def roundHalfEven_def decimal.simps digitChar_def Let_def

lemma fmt_f2_examples:
  "fmt_f2 0x4145851F = ''12.35''" "fmt_f2 0xC2C587AE = ''-98.76''" "fmt_f2 0x7FC00000 = ''NaN''"
  by (simp_all add: f32_eval)

lemma fmt_d_examples:
  "fmt_d 1000 = ''1000''" "fmt_d 1 = ''1''" "fmt_d 2 = ''2''" "fmt_d 3 = ''3''"
  "fmt_d 4 = ''4''" "fmt_d 5 = ''5''" "fmt_d 6 = ''6''"
  by (simp_all add: fmt_d_def decimal.simps digitChar_def)

lemma exampleRecord_floats:
  "nearestFloat32 (12345 / 1000) (Latitude exampleRecord)"
  "nearestFloat32 (- 98765 / 1000) (Longitude exampleRecord)"
  "f32_abs (Longitude exampleRecord) < 98765 / 1000"
  by (simp_all add: nearestFloat32_def exampleRecord_def f32_abs_def f32_ulp_def f32_exp_def
      f32_frac_def f32_sign_def f32_pow_def f32_mant_def)

lemma exampleRecord_influx:
  "recToInfluxDB [] exampleRecord ''era5'' =
     Ok ''era5,la=12.35,lo=-98.76 u10=1,v10=2,t2m=3,sf=4,tcc=5,tp=6 1000''"
  by (simp add: recToInfluxDB_eq exampleRecord_def fmt_f2_examples fmt_d_examples)

lemma exampleRecord_csv:
  "recToCSV [] exampleRecord ''era5'' = Ok ''1000,12.35,-98.76,1,2,3,4,5,6''"
  by (simp add: recToCSV_eq exampleRecord_def fmt_f2_examples fmt_d_examples)

text \<open>
  Claim C3, as amended. For every record and prefix the line-protocol encoder appends
  \<open>p,la=LAT,lo=LON u10=..,v10=..,t2m=..,sf=..,tcc=..,tp=.. TIMESTAMP\<close>, where a finite
  latitude or longitude is printed with exactly two decimal digits and the metrics and
  the timestamp as signed decimal integers. The record of the specification's example,
  whose coordinates are the \<^verbatim>\<open>float32\<close> values nearest to 12.345 and -98.765, encodes
  to \<open>era5,la=12.35,lo=-98.76 u10=1,v10=2,t2m=3,sf=4,tcc=5,tp=6 1000\<close>: the
  \<^verbatim>\<open>float32\<close> nearest to -98.765 lies between -98.765 and 0. The encoder of the version
  without the prefix parameter is this encoder at the prefix \<open>era5\<close>.
\<close>

theorem recToInfluxDB_line:
  "recToInfluxDB sb r p =
     Ok (sb @ p @ '',la='' @ fmt_f2 (Latitude r) @ '',lo='' @ fmt_f2 (Longitude r) @
       '' u10='' @ fmt_d (sint (ZonalWind10M r)) @ '',v10='' @ fmt_d (sint (MeridionalWind10M r)) @
       '',t2m='' @ fmt_d (sint (Temperature2M r)) @ '',sf='' @ fmt_d (sint (Snowfall r)) @
       '',tcc='' @ fmt_d (sint (TotalCloudCover r)) @ '',tp='' @ fmt_d (sint (TotalPrecipitation r)) @
       '' '' @ fmt_d (sint (Timestamp r))) \<and>
   recToInfluxDB_era5 sb r = recToInfluxDB sb r ''era5'' \<and>
   (f32_exp w \<noteq> 255 \<longrightarrow> isFixed2 (fmt_f2 w)) \<and>
   isSignedDecimal (fmt_d x) \<and>
   recToInfluxDB [] exampleRecord ''era5'' =
     Ok ''era5,la=12.35,lo=-98.76 u10=1,v10=2,t2m=3,sf=4,tcc=5,tp=6 1000''"
  using recToInfluxDB_eq[of sb r p] recToInfluxDB_era5_eq[of sb r] fmt_f2_isFixed2[of w]
    fmt_d_isSignedDecimal[of x] exampleRecord_influx
  by blast

theorem recToInfluxDB_line_witness:
  "f32_exp (Latitude exampleRecord) \<noteq> 255 \<and>
   isFixed2 (fmt_f2 (Latitude exampleRecord)) \<and>
   fmt_f2 (Latitude exampleRecord) = ''12.35'' \<and>
   recToInfluxDB [] exampleRecord ''era5'' =
     Ok ''era5,la=12.35,lo=-98.76 u10=1,v10=2,t2m=3,sf=4,tcc=5,tp=6 1000''"
proof -
  have h: "f32_exp (Latitude exampleRecord) \<noteq> 255"
    by (simp add: exampleRecord_def f32_exp_def)
  have e: "fmt_f2 (Latitude exampleRecord) = ''12.35''"
    by (simp add: exampleRecord_def fmt_f2_examples)
  from recToInfluxDB_line[of "[]" exampleRecord "''era5''" "Latitude exampleRecord"] h
  have "isFixed2 (fmt_f2 (Latitude exampleRecord))"
    and "recToInfluxDB [] exampleRecord ''era5'' =
     Ok ''era5,la=12.35,lo=-98.76 u10=1,v10=2,t2m=3,sf=4,tcc=5,tp=6 1000''"
    by blast+
  with h e show ?thesis by blast
qed

text \<open>
  Claim C3 as stated fails at its own example: the longitude of the example record is
  the \<^verbatim>\<open>float32\<close> nearest to -98.765, and the encoder prints it as \<open>-98.76\<close>, not
  \<open>-98.77\<close>. A NaN latitude is printed as \<open>NaN\<close>, without decimal digits.
\<close>

theorem recToInfluxDB_example_counterexample:
  "nearestFloat32 (12345 / 1000) (Latitude exampleRecord) \<and>
   nearestFloat32 (- 98765 / 1000) (Longitude exampleRecord) \<and>
   recToInfluxDB [] exampleRecord ''era5'' \<noteq>
     Ok ''era5,la=12.35,lo=-98.77 u10=1,v10=2,t2m=3,sf=4,tcc=5,tp=6 1000'' \<and>
   recToInfluxDB [] nanRecord ''era5'' =
     Ok ''era5,la=NaN,lo=-98.76 u10=1,v10=2,t2m=3,sf=4,tcc=5,tp=6 1000''"
proof -
  have "recToInfluxDB [] nanRecord ''era5'' =
     Ok ''era5,la=NaN,lo=-98.76 u10=1,v10=2,t2m=3,sf=4,tcc=5,tp=6 1000''"
    by (simp add: recToInfluxDB_eq nanRecord_def exampleRecord_def fmt_f2_examples fmt_d_examples)
  then show ?thesis
    using exampleRecord_floats(1,2) by (simp add: exampleRecord_influx)
qed

lemma NewClient_csv:
  assumes "urlParse rawURL = Inr u" and "Path u = ''/api/v1/import/csv''"
    and "regexpMatch metricPrefixRE p = Ok True"
  shows "NewClient urlParse urlString rawURL maxConns p =
           Ok \<lparr>httpCli = maxConns,
               insertURL = urlString (u\<lparr>Query := Values_Add (Query u) ''format'' (csvFormatParam p)\<rparr>),
               metricPrefix = p, recToText = recToCSV\<rparr>"
  using assms
  by (simp add: NewClient_def apiParamsFuncs_def recToTextFuncs_def csvAPIParams_eq
      csvFormatParam_def Let_def)

text \<open>
  Claim C4, as amended. The CSV endpoint path resolves to the CSV encoder and to exactly
  one query parameter, \<open>format\<close>, whose value is the column mapping with the prefix in
  every metric column name; \<^verbatim>\<open>NewClient\<close> binds that encoder and adds that parameter to
  the URL's query. The encoder appends
  \<open>TIMESTAMP,LAT,LON,u10,v10,t2m,sf,tcc,tp\<close>, a finite latitude or longitude with exactly
  two decimal digits. The example record encodes to \<open>1000,12.35,-98.76,1,2,3,4,5,6\<close>.
\<close>

theorem csv_endpoint:
  "recToTextFuncs ''/api/v1/import/csv'' = Some recToCSV \<and>
   apiParamsFuncs ''/api/v1/import/csv'' = Some csvAPIParams \<and>
   csvAPIParams p = Ok [(''format'', csvFormatParam p)] \<and>
   recToCSV sb r p =
     Ok (sb @ fmt_d (sint (Timestamp r)) @ '','' @ fmt_f2 (Latitude r) @ '','' @
       fmt_f2 (Longitude r) @ '','' @ fmt_d (sint (ZonalWind10M r)) @ '','' @
       fmt_d (sint (MeridionalWind10M r)) @ '','' @ fmt_d (sint (Temperature2M r)) @ '','' @
       fmt_d (sint (Snowfall r)) @ '','' @ fmt_d (sint (TotalCloudCover r)) @ '','' @
       fmt_d (sint (TotalPrecipitation r))) \<and>
   (f32_exp w \<noteq> 255 \<longrightarrow> isFixed2 (fmt_f2 w)) \<and>
   isSignedDecimal (fmt_d x) \<and>
   recToCSV [] exampleRecord ''era5'' = Ok ''1000,12.35,-98.76,1,2,3,4,5,6'' \<and>
   (urlParse rawURL = Inr u \<longrightarrow> Path u = ''/api/v1/import/csv'' \<longrightarrow>
    regexpMatch metricPrefixRE p = Ok True \<longrightarrow>
      NewClient urlParse urlString rawURL maxConns p =
        Ok \<lparr>httpCli = maxConns,
            insertURL = urlString (u\<lparr>Query := Values_Add (Query u) ''format'' (csvFormatParam p)\<rparr>),
            metricPrefix = p, recToText = recToCSV\<rparr>)"
proof -
  have 1: "recToTextFuncs ''/api/v1/import/csv'' = Some recToCSV"
    by (simp add: recToTextFuncs_def)
  have 2: "apiParamsFuncs ''/api/v1/import/csv'' = Some csvAPIParams"
    by (simp add: apiParamsFuncs_def)
  have 3: "csvAPIParams p = Ok [(''format'', csvFormatParam p)]"
    by (simp add: csvAPIParams_eq csvFormatParam_def)
  show ?thesis
    using 1 2 3 recToCSV_eq[of sb r p] fmt_f2_isFixed2[of w] fmt_d_isSignedDecimal[of x]
      exampleRecord_csv NewClient_csv[of urlParse rawURL u p urlString maxConns]
    by blast
qed

theorem csv_endpoint_witness:
  "exampleParse ''http://localhost:8428/api/v1/import/csv'' =
     Inr \<lparr>Path = ''/api/v1/import/csv'', Query = emptyQuery\<rparr> \<and>
   regexpMatch metricPrefixRE ''era5'' = Ok True \<and>
   NewClient exampleParse exampleURLString ''http://localhost:8428/api/v1/import/csv'' 8 ''era5'' =
     Ok \<lparr>httpCli = 8,
         insertURL = ''http://localhost:8428/api/v1/import/csv?format=1:time:unix_ms,2:label:la,3:label:lo,4:metric:era5_u10,5:metric:era5_v10,6:metric:era5_t2m,7:metric:era5_sf,8:metric:era5_tcc,9:metric:era5_tp'',
         metricPrefix = ''era5'', recToText = recToCSV\<rparr> \<and>
   f32_exp (Longitude exampleRecord) \<noteq> 255 \<and>
   isFixed2 (fmt_f2 (Longitude exampleRecord))"
proof -
  let ?u = "\<lparr>Path = ''/api/v1/import/csv'', Query = emptyQuery\<rparr>"
  have a: "exampleParse ''http://localhost:8428/api/v1/import/csv'' = Inr ?u"
    by (simp add: exampleParse_def)
  have b: "Path ?u = ''/api/v1/import/csv''" by simp
  have c: "regexpMatch metricPrefixRE ''era5'' = Ok True"
    by (simp add: regexpMatch_def metricPrefixRE_def inRanges_def)
  have d: "f32_exp (Longitude exampleRecord) \<noteq> 255"
    by (simp add: exampleRecord_def f32_exp_def)
  from csv_endpoint[of "''era5''" _ _ "Longitude exampleRecord" _ exampleParse
      "''http://localhost:8428/api/v1/import/csv''" ?u exampleURLString 8] a b c d
  have "NewClient exampleParse exampleURLString ''http://localhost:8428/api/v1/import/csv'' 8 ''era5'' =
        Ok \<lparr>httpCli = 8,
            insertURL = exampleURLString (?u\<lparr>Query := Values_Add (Query ?u) ''format'' (csvFormatParam ''era5'')\<rparr>),
            metricPrefix = ''era5'', recToText = recToCSV\<rparr>"
    and "isFixed2 (fmt_f2 (Longitude exampleRecord))"
    by blast+
  moreover have "exampleURLString (?u\<lparr>Query := Values_Add (Query ?u) ''format'' (csvFormatParam ''era5'')\<rparr>)
      = ''http://localhost:8428/api/v1/import/csv?format=1:time:unix_ms,2:label:la,3:label:lo,4:metric:era5_u10,5:metric:era5_v10,6:metric:era5_t2m,7:metric:era5_sf,8:metric:era5_tcc,9:metric:era5_tp''"
    by (simp add: exampleURLString_def Values_Add_def emptyQuery_def csvFormatParam_def)
  ultimately show ?thesis using a c d by simp
qed

text \<open>
  Claim C4 as stated fails at its own example: the CSV encoder prints the longitude of
  the example record, the \<^verbatim>\<open>float32\<close> nearest to -98.765, as \<open>-98.76\<close>.
\<close>

theorem recToCSV_example_counterexample:
  "nearestFloat32 (- 98765 / 1000) (Longitude exampleRecord) \<and>
   f32_abs (Longitude exampleRecord) < 98765 / 1000 \<and>
   recToCSV [] exampleRecord ''era5'' \<noteq> Ok ''1000,12.35,-98.77,1,2,3,4,5,6''"
  using exampleRecord_floats(2,3) by (simp add: exampleRecord_csv)

lemma regexpMatch_metricPrefixRE:
  "regexpMatch metricPrefixRE p = Ok (p \<noteq> [] \<and> list_all (inRanges alnumRanges) p)"
  by (simp add: regexpMatch_def metricPrefixRE_def alnumRanges_def)

lemma NewClient_mismatch:
  assumes "regexpMatch metricPrefixRE p = Ok False"
  shows "\<exists>e. NewClient urlParse urlString rawURL maxConns p = Err e"
  using assms by (auto simp: NewClient_def split: sum.splits)

lemma NewClient_Ok:
  assumes "NewClient urlParse urlString rawURL maxConns p = Ok c"
  shows "regexpMatch metricPrefixRE p = Ok True \<and> metricPrefix c = p \<and>
         (recToText c = recToInfluxDB \<or> recToText c = recToCSV)"
proof -
  from assms obtain u where u: "urlParse rawURL = Inr u"
    by (auto simp: NewClient_def split: sum.splits)
  from assms u have m: "regexpMatch metricPrefixRE p = Ok True"
    by (auto simp: NewClient_def regexpMatch_metricPrefixRE split: if_splits)
  from assms u m obtain f where f: "recToTextFuncs (Path u) = Some f"
    and c: "metricPrefix c = p" "recToText c = f"
    by (auto simp: NewClient_def Let_def split: option.splits dest!: bindR_Ok)
  from f have "f = recToInfluxDB \<or> f = recToCSV"
    by (auto simp: recToTextFuncs_def split: if_splits)
  with m c show ?thesis by simp
qed

lemma NewClient_supported:
  assumes "regexpMatch metricPrefixRE p = Ok True" and "urlParse rawURL = Inr u"
    and "Path u \<in> dom recToTextFuncs"
  shows "\<exists>c. NewClient urlParse urlString rawURL maxConns p = Ok c"
proof -
  from assms(3) have "Path u \<in> {''/influx/write'', ''/influx/api/v2/write'', ''/write'',
      ''/api/v2/write'', ''/api/v1/import/csv''}"
    by (auto simp: recToTextFuncs_def dom_def split: if_splits)
  then show ?thesis
    using assms(1,2)
    by (auto simp: NewClient_def apiParamsFuncs_def recToTextFuncs_def csvAPIParams_eq
        influxDBAPIParams_def Let_def)
qed

text \<open>
  Claim C7. \<^verbatim>\<open>NewClient\<close> matches the prefix against \<^verbatim>\<open>^[a-zA-Z0-9]+$\<close>: the match
  succeeds exactly for a non-empty prefix of ASCII letters and digits. For a prefix that
  does not match, \<^verbatim>\<open>NewClient\<close> returns an error and no client; a client it returns has a
  matching prefix; a matching prefix with a URL that parses and a supported path gives a
  client. \<open>era-5\<close>, \<open>era 5\<close> and the empty prefix do not match; \<open>era5\<close> and \<open>ERA5x1\<close> do.
\<close>

theorem NewClient_validates_prefix:
  "regexpMatch metricPrefixRE p = Ok (p \<noteq> [] \<and> list_all (inRanges alnumRanges) p) \<and>
   (regexpMatch metricPrefixRE p = Ok False \<longrightarrow>
      (\<exists>e. NewClient urlParse urlString rawURL maxConns p = Err e)) \<and>
   (NewClient urlParse urlString rawURL maxConns p = Ok c \<longrightarrow>
      regexpMatch metricPrefixRE p = Ok True \<and> metricPrefix c = p) \<and>
   (regexpMatch metricPrefixRE p = Ok True \<longrightarrow> urlParse rawURL = Inr u \<longrightarrow>
    Path u \<in> dom recToTextFuncs \<longrightarrow>
      (\<exists>c'. NewClient urlParse urlString rawURL maxConns p = Ok c')) \<and>
   regexpMatch metricPrefixRE ''era-5'' = Ok False \<and>
   regexpMatch metricPrefixRE ''era 5'' = Ok False \<and>
   regexpMatch metricPrefixRE [] = Ok False \<and>
   regexpMatch metricPrefixRE ''era5'' = Ok True \<and>
   regexpMatch metricPrefixRE ''ERA5x1'' = Ok True"
proof -
  have ex: "regexpMatch metricPrefixRE ''era-5'' = Ok False"
    "regexpMatch metricPrefixRE ''era 5'' = Ok False"
    "regexpMatch metricPrefixRE [] = Ok False"
    "regexpMatch metricPrefixRE ''era5'' = Ok True"
    "regexpMatch metricPrefixRE ''ERA5x1'' = Ok True"
    by (simp_all add: regexpMatch_metricPrefixRE alnumRanges_def inRanges_def)
  show ?thesis
    using regexpMatch_metricPrefixRE[of p]
      NewClient_mismatch[of p urlParse urlString rawURL maxConns]
      NewClient_Ok[of urlParse urlString rawURL maxConns p c]
      NewClient_supported[of p urlParse rawURL u urlString maxConns] ex
    by blast
qed

theorem NewClient_validates_prefix_witness:
  "regexpMatch metricPrefixRE ''era-5'' = Ok False \<and>
   NewClient exampleParse exampleURLString ''http://localhost:8428/write'' 8 ''era-5'' =
     Err (Errorf ''metric prefix %q does not match %q regular expression''
            [''era-5'', ''^[a-zA-Z0-9]+$'']) \<and>
   regexpMatch metricPrefixRE ''ERA5x1'' = Ok True \<and>
   exampleParse ''http://localhost:8428/write'' = Inr \<lparr>Path = ''/write'', Query = emptyQuery\<rparr> \<and>
   NewClient exampleParse exampleURLString ''http://localhost:8428/write'' 8 ''ERA5x1'' =
     Ok \<lparr>httpCli = 8, insertURL = ''http://localhost:8428/write'',
         metricPrefix = ''ERA5x1'', recToText = recToInfluxDB\<rparr>"
proof -
  let ?u = "\<lparr>Path = ''/write'', Query = emptyQuery\<rparr>"
  have a: "regexpMatch metricPrefixRE ''era-5'' = Ok False"
    and b: "regexpMatch metricPrefixRE ''ERA5x1'' = Ok True"
    by (simp_all add: regexpMatch_def metricPrefixRE_def inRanges_def)
  have u: "exampleParse ''http://localhost:8428/write'' = Inr ?u"
    by (simp add: exampleParse_def)
  have d: "Path ?u \<in> dom recToTextFuncs" by (simp add: recToTextFuncs_def)
  from NewClient_validates_prefix[of "''era-5''" exampleParse exampleURLString
      "''http://localhost:8428/write''" 8] a
  obtain e where e: "NewClient exampleParse exampleURLString ''http://localhost:8428/write'' 8 ''era-5'' = Err e"
    by blast
  from NewClient_validates_prefix[of "''ERA5x1''" exampleParse exampleURLString
      "''http://localhost:8428/write''" 8 _ ?u] b u d
  obtain c where c: "NewClient exampleParse exampleURLString ''http://localhost:8428/write'' 8 ''ERA5x1'' = Ok c"
    by blast
  from e a u have "e = Errorf ''metric prefix %q does not match %q regular expression''
            [''era-5'', ''^[a-zA-Z0-9]+$'']"
    by (simp add: NewClient_def metricPrefixRE_def)
  moreover from c b u have "c = \<lparr>httpCli = 8, insertURL = ''http://localhost:8428/write'',
         metricPrefix = ''ERA5x1'', recToText = recToInfluxDB\<rparr>"
    by (simp add: NewClient_def apiParamsFuncs_def recToTextFuncs_def influxDBAPIParams_def
        exampleURLString_def emptyQuery_def)
  ultimately show ?thesis using a b u e c by simp
qed

subsection \<open>Insert\<close>

lemma writeRecs_total:
  assumes "f = recToInfluxDB \<or> f = recToCSV"
  shows "\<exists>t. writeRecs sb rs p f = Ok t"
proof (induction rs arbitrary: sb)
  case Nil
  show ?case by simp
next
  case (Cons r rs)
  from assms obtain t where "f sb r p = Ok t"
    using recToInfluxDB_eq[of sb r p] recToCSV_eq[of sb r p] by auto
  with Cons[of "t @ [CHR 0x0A]"] show ?case by simp
qed

lemma example_NewClient:
  "NewClient exampleParse exampleURLString ''http://localhost:8428/write'' 8 ''era5'' =
     Ok exampleClient"
  by (simp add: NewClient_def exampleParse_def regexpMatch_def metricPrefixRE_def inRanges_def
      apiParamsFuncs_def recToTextFuncs_def influxDBAPIParams_def exampleURLString_def
      emptyQuery_def exampleClient_def)

lemma example_recsToText:
  "recsToText [exampleRecord] ''era5'' recToInfluxDB =
     Ok (''era5,la=12.35,lo=-98.76 u10=1,v10=2,t2m=3,sf=4,tcc=5,tp=6 1000'' @ [CHR 0x0A])"
  by (simp add: recsToText_def exampleRecord_influx)

text \<open>
  Claim C6, as amended. \<^verbatim>\<open>Insert\<close> on a client made by \<^verbatim>\<open>NewClient\<close> always returns
  normally, after one POST of the encoded batch. When the POST fails it logs and does
  nothing else. When there is a response it logs a status other than ``no content'',
  then reads the body to its end or to the first read error, logs such an error, and
  closes the body last, whatever the status.
\<close>

theorem Insert_completes:
  assumes "NewClient urlParse urlString rawURL maxConns p = Ok c"
  shows "\<exists>payload evs.
           recsToText rs (metricPrefix c) (recToText c) = Ok payload \<and>
           Insert c httpPost rs = Ok evs \<and>
           hd evs = Post (insertURL c) ''text/plain'' payload \<and>
           (\<forall>e. httpPost (insertURL c) ''text/plain'' payload = Inl e \<longrightarrow>
              evs = [Post (insertURL c) ''text/plain'' payload, LogError ''Could not post data'']) \<and>
           (\<forall>res. httpPost (insertURL c) ''text/plain'' payload = Inr res \<longrightarrow>
              (LogError ''Unexpected status'' \<in> set evs \<longleftrightarrow> StatusCode res \<noteq> StatusNoContent) \<and>
              last evs = BodyClosed \<and>
              (readError (ResponseBody res) = None \<longrightarrow>
                 last (butlast evs) = Discarded (unread (ResponseBody res)) True) \<and>
              (\<forall>e. readError (ResponseBody res) = Some e \<longrightarrow>
                 last (butlast evs) = LogError ''Failed to drain response body'' \<and>
                 last (butlast (butlast evs)) = Discarded (unread (ResponseBody res)) False))"
proof -
  from NewClient_Ok[OF assms] have "recToText c = recToInfluxDB \<or> recToText c = recToCSV"
    by blast
  from writeRecs_total[OF this, of "[]" rs "metricPrefix c"] obtain payload where
    payload: "recsToText rs (metricPrefix c) (recToText c) = Ok payload"
    by (auto simp: recsToText_def)
  let ?post = "Post (insertURL c) ''text/plain'' payload"
  show ?thesis
  proof (cases "httpPost (insertURL c) ''text/plain'' payload")
    case (Inl e)
    then show ?thesis
      by (intro exI[of _ payload] exI[of _ "[?post, LogError ''Could not post data'']"])
        (simp add: Insert_def payload)
  next
    case (Inr res)
    let ?st = "if StatusCode res \<noteq> StatusNoContent then [LogError ''Unexpected status''] else []"
    show ?thesis
    proof (cases "readError (ResponseBody res)")
      case None
      let ?evs = "(?post # ?st) @ [Discarded (unread (ResponseBody res)) True, BodyClosed]"
      from Inr None have i: "Insert c httpPost rs = Ok ?evs"
        by (simp add: Insert_def payload)
      show ?thesis
        by (intro exI[of _ payload] exI[of _ ?evs]) (simp add: payload i Inr None)
    next
      case (Some e)
      let ?evs = "(?post # ?st) @ [Discarded (unread (ResponseBody res)) False,
                                   LogError ''Failed to drain response body'', BodyClosed]"
      from Inr Some have i: "Insert c httpPost rs = Ok ?evs"
        by (simp add: Insert_def payload)
      show ?thesis
        by (intro exI[of _ payload] exI[of _ ?evs]) (simp add: payload i Inr Some)
    qed
  qed
qed

theorem Insert_completes_witness:
  "NewClient exampleParse exampleURLString ''http://localhost:8428/write'' 8 ''era5'' =
     Ok exampleClient \<and>
   Insert exampleClient serverErrorPost [exampleRecord] =
     Ok [Post ''http://localhost:8428/write'' ''text/plain''
           (''era5,la=12.35,lo=-98.76 u10=1,v10=2,t2m=3,sf=4,tcc=5,tp=6 1000'' @ [CHR 0x0A]),
         LogError ''Unexpected status'', Discarded ''overloaded'' True, BodyClosed]"
proof -
  have h: "NewClient exampleParse exampleURLString ''http://localhost:8428/write'' 8 ''era5'' =
     Ok exampleClient"
    by (rule example_NewClient)
  from Insert_completes[OF h, of "[exampleRecord]" serverErrorPost] obtain payload evs where
    t: "recsToText [exampleRecord] (metricPrefix exampleClient) (recToText exampleClient) = Ok payload"
    and i: "Insert exampleClient serverErrorPost [exampleRecord] = Ok evs"
    by blast
  from t have "payload = ''era5,la=12.35,lo=-98.76 u10=1,v10=2,t2m=3,sf=4,tcc=5,tp=6 1000'' @ [CHR 0x0A]"
    by (simp add: exampleClient_def example_recsToText)
  with t i have "evs = [Post ''http://localhost:8428/write'' ''text/plain''
           (''era5,la=12.35,lo=-98.76 u10=1,v10=2,t2m=3,sf=4,tcc=5,tp=6 1000'' @ [CHR 0x0A]),
         LogError ''Unexpected status'', Discarded ''overloaded'' True, BodyClosed]"
    by (simp add: Insert_def exampleClient_def serverErrorPost_def StatusNoContent_def)
  with h i show ?thesis by simp
qed

text \<open>
  Claim C6 as stated fails when reading the response body fails: the server below
  answers ``no content'' and its body breaks off after three bytes. \<^verbatim>\<open>Insert\<close> logs that
  it failed to drain the body and closes it; the body was not read to its end.
\<close>

theorem Insert_drain_failure_counterexample:
  "NewClient exampleParse exampleURLString ''http://localhost:8428/write'' 8 ''era5'' =
     Ok exampleClient \<and>
   Insert exampleClient brokenBodyPost [exampleRecord] =
     Ok [Post ''http://localhost:8428/write'' ''text/plain''
           (''era5,la=12.35,lo=-98.76 u10=1,v10=2,t2m=3,sf=4,tcc=5,tp=6 1000'' @ [CHR 0x0A]),
         Discarded ''par'' False, LogError ''Failed to drain response body'', BodyClosed]"
  by (simp add: example_NewClient Insert_def exampleClient_def example_recsToText
      brokenBodyPost_def StatusNoContent_def)

subsection \<open>Workers\<close>

lemma concat_chunksOf: "0 < k \<Longrightarrow> concat (chunksOf k xs) = xs"
proof (induction k xs rule: chunksOf.induct)
  case (1 k xs)
  show ?case
  proof (cases "length xs = 0")
    case True
    then show ?thesis by (subst chunksOf.simps) simp
  next
    case False
    with 1 have "concat (chunksOf k (drop k xs)) = drop k xs" by simp
    with False "1.prems" show ?thesis by (subst chunksOf.simps) simp
  qed
qed

lemma chunksOf_lengths:
  "0 < k \<Longrightarrow> c \<in> set (chunksOf k xs) \<Longrightarrow> 0 < length c \<and> length c \<le> k"
proof (induction k xs rule: chunksOf.induct)
  case (1 k xs)
  show ?case
  proof (cases "length xs = 0")
    case True
    with "1.prems" show ?thesis by (subst (asm) chunksOf.simps) simp
  next
    case False
    from "1.prems"(2) False "1.prems"(1)
    have "c = take k xs \<or> c \<in> set (chunksOf k (drop k xs))"
      by (subst (asm) chunksOf.simps) auto
    then show ?thesis
    proof
      assume "c = take k xs"
      with False "1.prems"(1) show ?thesis by auto
    next
      assume "c \<in> set (chunksOf k (drop k xs))"
      with 1 False show ?thesis by simp
    qed
  qed
qed

lemma chunksOf_nth:
  "0 < k \<Longrightarrow> j < length (chunksOf k xs) \<Longrightarrow> chunksOf k xs ! j = take k (drop (j * k) xs)"
proof (induction k xs arbitrary: j rule: chunksOf.induct)
  case (1 k xs)
  show ?case
  proof (cases "length xs = 0")
    case True
    with "1.prems" show ?thesis by (subst (asm) chunksOf.simps) simp
  next
    case False
    have e: "chunksOf k xs = take k xs # chunksOf k (drop k xs)"
      using False "1.prems"(1) by (subst chunksOf.simps) simp
    show ?thesis
    proof (cases j)
      case 0
      then show ?thesis by (simp add: e)
    next
      case (Suc j')
      with "1.prems"(2) e have "j' < length (chunksOf k (drop k xs))" by simp
      with 1 False have "chunksOf k (drop k xs) ! j' = take k (drop (j' * k) (drop k xs))"
        by simp
      then show ?thesis by (simp add: e Suc add.commute)
    qed
  qed
qed

lemma wrap64_id: "- (2 ^ 63) \<le> x \<Longrightarrow> x < 2 ^ 63 \<Longrightarrow> wrap64 x = x"
  unfolding wrap64_def by (rule signed_take_bit_int_eq_self)

lemma insertChunks_refines:
  assumes rpi: "0 < rpi" "rpi < 2 ^ 63" and n: "int (length rs) \<le> 2 ^ 62"
    and i: "0 \<le> i" "i = 0 \<or> rpi \<le> i"
  shows "insertChunks rpi rs i evs =
           Some (Ok (evs @ map InsertCall (chunksOf (nat rpi) (drop (nat i) rs))))"
  using i
proof (induction "nat (int (length rs) - i)" arbitrary: i evs rule: less_induct)
  case less
  let ?n = "int (length rs)"
  show ?case
  proof (cases "i < ?n")
    case False
    with less.prems have "drop (nat i) rs = []" by simp
    then have "chunksOf (nat rpi) (drop (nat i) rs) = []"
      by (subst chunksOf.simps) simp
    with False show ?thesis by (subst insertChunks.simps) simp
  next
    case True
    have bound: "i + rpi < 2 ^ 63"
    proof (cases "i = 0")
      case True
      with rpi show ?thesis by simp
    next
      case False
      with less.prems have "rpi \<le> i" by simp
      moreover from True n have "i < 2 ^ 62" by simp
      ultimately show ?thesis by simp
    qed
    have w: "wrap64 (i + rpi) = i + rpi"
      using bound less.prems(1) rpi(1) by (intro wrap64_id) simp_all
    let ?l = "if ?n < i + rpi then ?n else i + rpi"
    let ?xs = "drop (nat i) rs"
    have len: "length ?xs \<noteq> 0" using True less.prems(1) by simp
    have chunk: "sliceOf rs i ?l = Ok (take (nat rpi) ?xs)"
    proof -
      have "take (nat (?l - i)) ?xs = take (nat rpi) ?xs"
        using True less.prems(1) rpi(1) by (auto simp: min_def)
      moreover have "0 \<le> i \<and> i \<le> ?l \<and> ?l \<le> ?n"
        using True less.prems(1) rpi(1) by simp
      ultimately show ?thesis by (simp add: sliceOf_def)
    qed
    have unfold: "insertChunks rpi rs i evs =
        (case sliceOf rs i ?l of
           Panic p \<Rightarrow> Some (Panic p)
         | Err e \<Rightarrow> Some (Err e)
         | Unmodelled \<Rightarrow> Some Unmodelled
         | Ok chunk \<Rightarrow> insertChunks rpi rs (i + rpi) (evs @ [InsertCall chunk]))"
      by (subst insertChunks.simps) (simp only: True if_True w)
    have step: "insertChunks rpi rs i evs =
        insertChunks rpi rs (i + rpi) (evs @ [InsertCall (take (nat rpi) ?xs)])"
      by (simp only: unfold chunk result.case)
    have m: "nat (?n - (i + rpi)) < nat (?n - i)" using True rpi(1) by simp
    have i': "0 \<le> i + rpi" "i + rpi = 0 \<or> rpi \<le> i + rpi"
      using less.prems(1) rpi(1) by simp_all
    have d: "drop (nat (i + rpi)) rs = drop (nat rpi) ?xs"
      using less.prems(1) rpi(1) by (simp add: nat_add_distrib add.commute)
    have c: "chunksOf (nat rpi) ?xs = take (nat rpi) ?xs # chunksOf (nat rpi) (drop (nat rpi) ?xs)"
      using len rpi(1) by (subst chunksOf.simps) simp
    from less.hyps[OF m i'] show ?thesis
      by (simp add: step d c)
  qed
qed

lemma chunksOf_1234:
  assumes "length xs = 1234"
  shows "map length (chunksOf 500 xs) = [500, 500, 234]"
proof -
  have "chunksOf 500 xs = [take 500 xs, take 500 (drop 500 xs), take 500 (drop 1000 xs)]"
    using assms by (simp add: chunksOf.simps[of 500])
  with assms show ?thesis by simp
qed

lemma chunksOf_full:
  assumes "0 < k" and "Suc j < length (chunksOf k xs)"
  shows "length (chunksOf k xs ! j) = k"
proof -
  from assms(2) have j: "j < length (chunksOf k xs)" by simp
  let ?c = "chunksOf k xs ! Suc j"
  have "?c \<in> set (chunksOf k xs)" using assms(2) by (rule nth_mem)
  from chunksOf_lengths[OF assms(1) this] have "0 < length ?c" by simp
  moreover have "?c = take k (drop (Suc j * k) xs)"
    using assms by (rule chunksOf_nth)
  ultimately have "Suc j * k < length xs" by simp
  then have "k \<le> length xs - j * k" by simp
  then show ?thesis
    by (simp add: chunksOf_nth[OF assms(1) j])
qed

text \<open>
  Claim C5. For a chunk size \<^verbatim>\<open>recsPerInsert > 0\<close> a worker handles a batch of \<open>n\<close>
  records by one \<^verbatim>\<open>Insert\<close> call per chunk, in order, and then one send of \<open>n\<close> on
  \<^verbatim>\<open>loaded\<close>; the loop ends. The chunks are the contiguous chunks of at most
  \<^verbatim>\<open>recsPerInsert\<close> records: concatenated they are the batch (each record once, no
  overlap), none is empty, chunk \<open>j\<close> starts at record \<open>j * recsPerInsert\<close>, and all but
  the last are full. 1234 records with chunk size 500 give chunks of 500, 500 and 234.
  The chunk size is a Go \<^verbatim>\<open>int\<close>, so below \<open>2 ^ 63\<close>; a batch in memory is far shorter
  than \<open>2 ^ 62\<close> records, which keeps \<^verbatim>\<open>begin + *recsPerInsert\<close> from wrapping.
\<close>

theorem loadBatch_chunks:
  assumes "0 < recsPerInsert" and "recsPerInsert < 2 ^ 63" and "int (length rs) \<le> 2 ^ 62"
  shows "loadBatch recsPerInsert rs =
           Some (Ok (map InsertCall (chunksOf (nat recsPerInsert) rs) @
                     [Loaded (int (length rs))])) \<and>
         concat (chunksOf (nat recsPerInsert) rs) = rs \<and>
         (\<forall>c \<in> set (chunksOf (nat recsPerInsert) rs).
            0 < length c \<and> int (length c) \<le> recsPerInsert) \<and>
         (\<forall>j < length (chunksOf (nat recsPerInsert) rs).
            chunksOf (nat recsPerInsert) rs ! j =
              take (nat recsPerInsert) (drop (j * nat recsPerInsert) rs)) \<and>
         (\<forall>j. Suc j < length (chunksOf (nat recsPerInsert) rs) \<longrightarrow>
            int (length (chunksOf (nat recsPerInsert) rs ! j)) = recsPerInsert) \<and>
         (recsPerInsert = 500 \<longrightarrow> length rs = 1234 \<longrightarrow>
            map length (chunksOf (nat recsPerInsert) rs) = [500, 500, 234])"
proof -
  let ?k = "nat recsPerInsert"
  have k: "0 < ?k" using assms(1) by simp
  have "insertChunks recsPerInsert rs 0 [] =
          Some (Ok ([] @ map InsertCall (chunksOf ?k (drop (nat 0) rs))))"
    using assms by (intro insertChunks_refines) simp_all
  then have 1: "loadBatch recsPerInsert rs =
           Some (Ok (map InsertCall (chunksOf ?k rs) @ [Loaded (int (length rs))]))"
    by (simp add: loadBatch_def)
  have 2: "concat (chunksOf ?k rs) = rs" using k by (rule concat_chunksOf)
  have 3: "\<forall>c \<in> set (chunksOf ?k rs). 0 < length c \<and> int (length c) \<le> recsPerInsert"
  proof
    fix c assume "c \<in> set (chunksOf ?k rs)"
    from chunksOf_lengths[OF k this] have "0 < length c" "length c \<le> ?k" by simp_all
    with assms(1) show "0 < length c \<and> int (length c) \<le> recsPerInsert" by linarith
  qed
  have 4: "\<forall>j < length (chunksOf ?k rs). chunksOf ?k rs ! j = take ?k (drop (j * ?k) rs)"
    using chunksOf_nth[OF k] by blast
  have 5: "\<forall>j. Suc j < length (chunksOf ?k rs) \<longrightarrow> int (length (chunksOf ?k rs ! j)) = recsPerInsert"
  proof (intro allI impI)
    fix j assume "Suc j < length (chunksOf ?k rs)"
    from chunksOf_full[OF k this] assms(1)
    show "int (length (chunksOf ?k rs ! j)) = recsPerInsert" by simp
  qed
  have 6: "recsPerInsert = 500 \<longrightarrow> length rs = 1234 \<longrightarrow>
            map length (chunksOf ?k rs) = [500, 500, 234]"
    using chunksOf_1234[of rs] by simp
  from 1 2 3 4 5 6 show ?thesis by (intro conjI)
qed

theorem loadBatch_chunks_witness:
  "loadBatch 500 (replicate 1234 exampleRecord) =
     Some (Ok [InsertCall (replicate 500 exampleRecord), InsertCall (replicate 500 exampleRecord),
               InsertCall (replicate 234 exampleRecord), Loaded 1234]) \<and>
   map length (chunksOf 500 (replicate 1234 exampleRecord)) = [500, 500, 234]"
proof -
  let ?rs = "replicate 1234 exampleRecord"
  have a: "(0::int) < 500" "(500::int) < 2 ^ 63" "int (length ?rs) \<le> 2 ^ 62" by simp_all
  from loadBatch_chunks[OF a] have
    l: "loadBatch 500 ?rs = Some (Ok (map InsertCall (chunksOf (nat 500) ?rs) @ [Loaded (int (length ?rs))]))"
    and m: "map length (chunksOf (nat 500) ?rs) = [500, 500, 234]"
    by simp_all
  have c: "chunksOf 500 ?rs = [replicate 500 exampleRecord, replicate 500 exampleRecord,
      replicate 234 exampleRecord]"
    by (simp add: chunksOf.simps[of 500])
  from l m show ?thesis by (simp add: c)
qed

end
